theory Spec2Isabelle
  imports Complex_Main "HOL-Library.Multiset"
begin

section \<open>Data model (data\_structures.py)\<close>

text \<open>
  The Python objects are mutated in place and shared between the document tree and the
  list that \<open>rank_sections_globally\<close> returns, so they live in an explicit store:
  a chunk or a section is a reference (a natural number) and the heap maps every
  reference to the object's current fields. A \<open>Section\<close> holds the references of its
  chunks, a \<open>Document\<close> the references of its sections. Python floats are modelled as
  exact reals (no rounding error, no NaN, no infinity).
\<close>

type_synonym cref = nat
type_synonym sref = nat

record Chunk =
  chunk_text :: string
  chunk_source_doc_name :: string
  source_section_title :: string
  embedding :: "real list option"
  similarity_score :: "real option"

record Section =
  title :: string
  page_number :: int
  source_doc_name :: string
  raw_text :: string
  chunks :: "cref list"
  aggregated_score :: "real option"
  rank :: "int option"

record Document =
  filename :: string
  sections :: "sref list"

record heap =
  chunk_of :: "cref \<Rightarrow> Chunk"
  section_of :: "sref \<Rightarrow> Section"

text \<open>The exceptions of the model. \<open>ValueError\<close>, \<open>TypeError\<close> and \<open>IndexError\<close> are the
  Python exceptions the code below can raise. \<open>DimensionMismatch\<close> is the error the
  specification names for a query of the wrong length; the source defines no such class
  and no function of the model returns it.\<close>

datatype error = ValueError | TypeError | IndexError | DimensionMismatch

section \<open>Python and numpy primitives used by the engine\<close>

text \<open>\<open>np.dot\<close> on two one-dimensional arrays: the inner product, or numpy's
  \<open>ValueError\<close> (shapes not aligned) when the lengths differ. An embedding that is
  still \<open>None\<close> makes the product raise \<open>TypeError\<close>.\<close>

definition np_dot :: "real list option \<Rightarrow> real list \<Rightarrow> error + real" where
  "np_dot a b =
     (case a of
        None \<Rightarrow> Inl TypeError
      | Some v \<Rightarrow>
          if length v = length b then Inr (sum_list (map2 (*) v b)) else Inl ValueError)"

text \<open>\<open>sorted(xs, key=key, reverse=True)\<close>: a stable sort in descending key order
  (CPython reverses, sorts stably ascending and reverses again). The keys are optional
  floats; comparing \<open>None\<close> raises \<open>TypeError\<close>, which happens exactly when there is a
  \<open>None\<close> key and at least two elements to compare.\<close>

definition key_val :: "('a \<Rightarrow> real option) \<Rightarrow> 'a \<Rightarrow> real" where
  "key_val key x = (case key x of None \<Rightarrow> 0 | Some v \<Rightarrow> v)"

definition sort_descending :: "('a \<Rightarrow> real) \<Rightarrow> 'a list \<Rightarrow> 'a list" where
  "sort_descending f xs = rev (sort_key f (rev xs))"

definition sorted_reverse :: "('a \<Rightarrow> real option) \<Rightarrow> 'a list \<Rightarrow> error + 'a list" where
  "sorted_reverse key xs =
     (if 2 \<le> length xs \<and> list_ex (\<lambda>x. key x = None) xs then Inl TypeError
      else Inr (sort_descending (key_val key) xs))"

text \<open>The slice \<open>xs[:n]\<close>: a negative \<open>n\<close> counts from the end.\<close>

definition slice_to :: "'a list \<Rightarrow> int \<Rightarrow> 'a list" where
  "slice_to xs n =
     (if n < 0 then take (nat (int (length xs) + n)) xs else take (nat n) xs)"

text \<open>\<open>np.mean\<close> of a non-empty list of optional floats.\<close>

definition np_mean :: "real option list \<Rightarrow> error + real" where
  "np_mean xs =
     (if list_ex (\<lambda>x. x = None) xs then Inl TypeError
      else Inr (sum_list (map (key_val (\<lambda>v. v)) xs) / real (length xs)))"

text \<open>\<open>round(x, ndigits)\<close> on a float: to the nearest multiple of \<open>10^-ndigits\<close>,
  an exact tie going to the even neighbour.\<close>

definition py_round :: "real \<Rightarrow> nat \<Rightarrow> real" where
  "py_round x ndigits =
     (let y = x * 10 ^ ndigits;
          f = \<lfloor>y\<rfloor>;
          d = y - of_int f
      in of_int (if d < 1 / 2 then f
                 else if 1 / 2 < d then f + 1
                 else if even f then f else f + 1) / 10 ^ ndigits)"

text \<open>List indexing \<open>xs[i]\<close>, negative indices counting from the end.\<close>

definition getitem :: "'a list \<Rightarrow> int \<Rightarrow> error + 'a" where
  "getitem xs i =
     (let n = int (length xs); j = (if i < 0 then n + i else i)
      in if 0 \<le> j \<and> j < n then Inr (xs ! nat j) else Inl IndexError)"

section \<open>RankingEngine (core/ranking\_engine.py)\<close>

record RankingEngine =
  top_k_chunks :: int
  top_n_sections_for_analysis :: int

definition set_similarity_score :: "heap \<Rightarrow> cref \<Rightarrow> real option \<Rightarrow> heap" where
  "set_similarity_score h c v =
     h\<lparr>chunk_of := (chunk_of h)(c := (chunk_of h c)\<lparr>similarity_score := v\<rparr>)\<rparr>"

definition set_aggregated_score :: "heap \<Rightarrow> sref \<Rightarrow> real option \<Rightarrow> heap" where
  "set_aggregated_score h s v =
     h\<lparr>section_of := (section_of h)(s := (section_of h s)\<lparr>aggregated_score := v\<rparr>)\<rparr>"

definition set_rank :: "heap \<Rightarrow> sref \<Rightarrow> int option \<Rightarrow> heap" where
  "set_rank h s v =
     h\<lparr>section_of := (section_of h)(s := (section_of h s)\<lparr>rank := v\<rparr>)\<rparr>"

definition get_all_sections :: "Document list \<Rightarrow> sref list" where
  "get_all_sections all_docs = concat (map sections all_docs)"

text \<open>The inner loop of \<open>_score_all_chunks\<close> over one section's chunks. An exception
  leaves the loop at once; the scores written so far stay in the heap.\<close>

fun score_chunks :: "heap \<Rightarrow> cref list \<Rightarrow> real list \<Rightarrow> (error + unit) \<times> heap" where
  "score_chunks h [] q = (Inr (), h)"
| "score_chunks h (c # cs) q =
     (case np_dot (embedding (chunk_of h c)) q of
        Inl e \<Rightarrow> (Inl e, h)
      | Inr score \<Rightarrow> score_chunks (set_similarity_score h c (Some score)) cs q)"

fun score_all_chunks :: "heap \<Rightarrow> sref list \<Rightarrow> real list \<Rightarrow> (error + unit) \<times> heap" where
  "score_all_chunks h [] q = (Inr (), h)"
| "score_all_chunks h (s # ss) q =
     (case score_chunks h (chunks (section_of h s)) q of
        (Inl e, h') \<Rightarrow> (Inl e, h')
      | (Inr u, h') \<Rightarrow> score_all_chunks h' ss q)"

text \<open>The body of \<open>_aggregate_section_scores\<close> for a section that has chunks:
  the mean of the top K chunk scores.\<close>

definition mean_of_top_k :: "RankingEngine \<Rightarrow> real option list \<Rightarrow> error + real" where
  "mean_of_top_k self chunk_scores =
     (let num_chunks_to_consider = min (top_k_chunks self) (int (length chunk_scores))
      in case sorted_reverse (\<lambda>v. v) chunk_scores of
           Inl e \<Rightarrow> Inl e
         | Inr sorted_scores \<Rightarrow>
             (let top_k_scores = slice_to sorted_scores num_chunks_to_consider
              in if top_k_scores \<noteq> [] then np_mean top_k_scores else Inr 0))"

fun aggregate_section_scores ::
  "RankingEngine \<Rightarrow> heap \<Rightarrow> sref list \<Rightarrow> (error + unit) \<times> heap" where
  "aggregate_section_scores self h [] = (Inr (), h)"
| "aggregate_section_scores self h (s # ss) =
     (if chunks (section_of h s) = []
      then aggregate_section_scores self (set_aggregated_score h s (Some 0)) ss
      else
        case mean_of_top_k self
               (map (\<lambda>c. similarity_score (chunk_of h c)) (chunks (section_of h s))) of
          Inl e \<Rightarrow> (Inl e, h)
        | Inr m \<Rightarrow> aggregate_section_scores self (set_aggregated_score h s (Some m)) ss)"

text \<open>Step 4 of \<open>rank_sections_globally\<close>: the loop over \<open>enumerate(sorted_sections)\<close>.\<close>

fun assign_ranks :: "heap \<Rightarrow> (nat \<times> sref) list \<Rightarrow> heap" where
  "assign_ranks h [] = h"
| "assign_ranks h ((i, s) # xs) = assign_ranks (set_rank h s (Some (int i + 1))) xs"

definition rank_sections_globally ::
  "RankingEngine \<Rightarrow> heap \<Rightarrow> Document list \<Rightarrow> real list \<Rightarrow> (error + sref list) \<times> heap" where
  "rank_sections_globally self h all_docs query_embedding =
     (let all_sections = get_all_sections all_docs
      in case score_all_chunks h all_sections query_embedding of
           (Inl e, h1) \<Rightarrow> (Inl e, h1)
         | (Inr u, h1) \<Rightarrow>
             (case aggregate_section_scores self h1 all_sections of
                (Inl e, h2) \<Rightarrow> (Inl e, h2)
              | (Inr u, h2) \<Rightarrow>
                  (let scored_sections =
                         filter (\<lambda>s. aggregated_score (section_of h2 s) \<noteq> None) all_sections
                   in case sorted_reverse (\<lambda>s. aggregated_score (section_of h2 s))
                             scored_sections of
                        Inl e \<Rightarrow> (Inl e, h2)
                      | Inr sorted_sections \<Rightarrow>
                          (Inr sorted_sections,
                           assign_ranks h2 (enumerate 0 sorted_sections)))))"

text \<open>The dictionary that \<open>perform_sub_section_analysis\<close> appends for one section.\<close>

record analysis =
  source_document :: string
  section_title :: string
  importance_rank :: "int option"
  refined_text_snippet :: string
  snippet_relevance_score :: real

fun analysis_loop :: "heap \<Rightarrow> sref list \<Rightarrow> error + analysis list" where
  "analysis_loop h [] = Inr []"
| "analysis_loop h (s # ss) =
     (if chunks (section_of h s) = [] then analysis_loop h ss
      else
        case sorted_reverse (\<lambda>c. similarity_score (chunk_of h c)) (chunks (section_of h s)) of
          Inl e \<Rightarrow> Inl e
        | Inr sorted_chunks \<Rightarrow>
            (case getitem sorted_chunks 0 of
               Inl e \<Rightarrow> Inl e
             | Inr top_chunk \<Rightarrow>
                 (case similarity_score (chunk_of h top_chunk) of
                    None \<Rightarrow> Inl TypeError
                  | Some v \<Rightarrow>
                      (case analysis_loop h ss of
                         Inl e \<Rightarrow> Inl e
                       | Inr rest \<Rightarrow>
                           Inr (\<lparr>source_document = source_doc_name (section_of h s),
                                 section_title = title (section_of h s),
                                 importance_rank = rank (section_of h s),
                                 refined_text_snippet = chunk_text (chunk_of h top_chunk),
                                 snippet_relevance_score = py_round v 4\<rparr> # rest)))))"

text \<open>\<open>perform_sub_section_analysis\<close> writes to no object: the heap is returned as
  it was received.\<close>

definition perform_sub_section_analysis ::
  "RankingEngine \<Rightarrow> heap \<Rightarrow> sref list \<Rightarrow> (error + analysis list) \<times> heap" where
  "perform_sub_section_analysis self h ranked_sections =
     (let sections_for_analysis =
            slice_to ranked_sections (top_n_sections_for_analysis self)
      in (analysis_loop h sections_for_analysis, h))"

section \<open>Well-formed inputs and the closed form of each stage\<close>

text \<open>A chunk whose embedding is present and has the query's dimensionality.\<close>

definition chunk_dims_ok :: "heap \<Rightarrow> real list \<Rightarrow> cref \<Rightarrow> bool" where
  "chunk_dims_ok h q c =
     (case embedding (chunk_of h c) of None \<Rightarrow> False | Some v \<Rightarrow> length v = length q)"

definition sections_dims_ok :: "heap \<Rightarrow> real list \<Rightarrow> sref list \<Rightarrow> bool" where
  "sections_dims_ok h q ss =
     list_all (\<lambda>s. list_all (chunk_dims_ok h q) (chunks (section_of h s))) ss"

definition inner_product :: "real list option \<Rightarrow> real list \<Rightarrow> real" where
  "inner_product a q = (case a of None \<Rightarrow> 0 | Some v \<Rightarrow> sum_list (map2 (*) v q))"

definition chunks_of_sections :: "heap \<Rightarrow> sref list \<Rightarrow> cref set" where
  "chunks_of_sections h ss = (\<Union>s \<in> set ss. set (chunks (section_of h s)))"

definition scored :: "heap \<Rightarrow> cref set \<Rightarrow> real list \<Rightarrow> heap" where
  "scored h C q =
     h\<lparr>chunk_of := (\<lambda>c. if c \<in> C
          then (chunk_of h c)\<lparr>similarity_score := Some (inner_product (embedding (chunk_of h c)) q)\<rparr>
          else chunk_of h c)\<rparr>"

definition chunk_scores :: "heap \<Rightarrow> sref \<Rightarrow> real option list" where
  "chunk_scores h s = map (\<lambda>c. similarity_score (chunk_of h c)) (chunks (section_of h s))"

definition all_scored :: "heap \<Rightarrow> sref list \<Rightarrow> bool" where
  "all_scored h ss =
     list_all (\<lambda>s. list_all (\<lambda>c. similarity_score (chunk_of h c) \<noteq> None)
                      (chunks (section_of h s))) ss"

definition section_value :: "RankingEngine \<Rightarrow> heap \<Rightarrow> sref \<Rightarrow> real" where
  "section_value self h s =
     (if chunks (section_of h s) = [] then 0
      else case mean_of_top_k self (chunk_scores h s) of Inl e \<Rightarrow> 0 | Inr m \<Rightarrow> m)"

definition aggregated :: "RankingEngine \<Rightarrow> heap \<Rightarrow> sref set \<Rightarrow> heap" where
  "aggregated self h S =
     h\<lparr>section_of := (\<lambda>s. if s \<in> S
          then (section_of h s)\<lparr>aggregated_score := Some (section_value self h s)\<rparr>
          else section_of h s)\<rparr>"

text \<open>The aggregated score in the specification's words: sort the scores descending,
  take the first \<open>min(K, count)\<close> of them, return their arithmetic mean.\<close>

definition mean_of_largest :: "int \<Rightarrow> real list \<Rightarrow> real" where
  "mean_of_largest K scores =
     (let m = min (nat K) (length scores)
      in sum_list (take m (rev (sort scores))) / real m)"

definition example_chunk :: "real option \<Rightarrow> Chunk" where
  "example_chunk v =
     \<lparr>chunk_text = ''t'', chunk_source_doc_name = ''d'', source_section_title = ''s'',
      embedding = None, similarity_score = v\<rparr>"

definition example_section :: "cref list \<Rightarrow> Section" where
  "example_section cs =
     \<lparr>title = ''s'', page_number = 1, source_doc_name = ''d'', raw_text = '''',
      chunks = cs, aggregated_score = None, rank = None\<rparr>"

text \<open>One section whose four chunks carry the scores 0.9, 0.8, 0.5 and 0.1.\<close>

definition heap_four_scores :: heap where
  "heap_four_scores =
     \<lparr>chunk_of = (\<lambda>c. example_chunk None)
        (0 := example_chunk (Some (9 / 10)), 1 := example_chunk (Some (8 / 10)),
         2 := example_chunk (Some (5 / 10)), 3 := example_chunk (Some (1 / 10))),
      section_of = (\<lambda>s. example_section [])(0 := example_section [0, 1, 2, 3])\<rparr>"

text \<open>The rank a section holds after the loop over \<open>enumerate(sorted_sections)\<close>:
  the last assignment to it wins.\<close>

fun final_rank :: "(nat \<times> sref) list \<Rightarrow> sref \<Rightarrow> int option \<Rightarrow> int option" where
  "final_rank [] s r = r"
| "final_rank ((i, t) # xs) s r = final_rank xs s (if t = s then Some (int i + 1) else r)"

definition dims_match :: "heap \<Rightarrow> Document list \<Rightarrow> real list \<Rightarrow> bool" where
  "dims_match h docs q = sections_dims_ok h q (get_all_sections docs)"

definition scored_heap :: "heap \<Rightarrow> Document list \<Rightarrow> real list \<Rightarrow> heap" where
  "scored_heap h docs q = scored h (chunks_of_sections h (get_all_sections docs)) q"

definition ranked :: "RankingEngine \<Rightarrow> heap \<Rightarrow> Document list \<Rightarrow> real list \<Rightarrow> sref list" where
  "ranked self h docs q =
     sort_descending (section_value self (scored_heap h docs q)) (get_all_sections docs)"

definition aggregated_heap :: "RankingEngine \<Rightarrow> heap \<Rightarrow> Document list \<Rightarrow> real list \<Rightarrow> heap" where
  "aggregated_heap self h docs q =
     aggregated self (scored_heap h docs q) (set (get_all_sections docs))"

definition ranked_heap :: "RankingEngine \<Rightarrow> heap \<Rightarrow> Document list \<Rightarrow> real list \<Rightarrow> heap" where
  "ranked_heap self h docs q =
     assign_ranks (aggregated_heap self h docs q) (enumerate 0 (ranked self h docs q))"

text \<open>The end-to-end scenario of the specification, with one empty section added:
  document A holds section 10 (two chunks, scores 0.9 and 0.2) and the empty section 12,
  document B holds section 11 (one chunk, score 0.6). The query is the first unit vector.\<close>

definition example_embedded :: "string \<Rightarrow> real list \<Rightarrow> Chunk" where
  "example_embedded t v =
     \<lparr>chunk_text = t, chunk_source_doc_name = ''d'', source_section_title = ''s'',
      embedding = Some v, similarity_score = None\<rparr>"

definition example_heap :: heap where
  "example_heap =
     \<lparr>chunk_of = (\<lambda>c. example_chunk None)
        (20 := example_embedded ''a0'' [9 / 10, 0], 21 := example_embedded ''a1'' [2 / 10, 0],
         22 := example_embedded ''b0'' [6 / 10, 0]),
      section_of = (\<lambda>s. example_section [])
        (10 := example_section [20, 21], 11 := example_section [22])\<rparr>"

definition example_docs :: "Document list" where
  "example_docs = [\<lparr>filename = ''A'', sections = [10, 12]\<rparr>, \<lparr>filename = ''B'', sections = [11]\<rparr>]"

definition example_query :: "real list" where
  "example_query = [1, 0]"

definition example_engine :: RankingEngine where
  "example_engine = \<lparr>top_k_chunks = 3, top_n_sections_for_analysis = 5\<rparr>"

text \<open>The frame of the engine: \<open>only_scores_changed h h'\<close> holds when \<open>h'\<close> differs from
  \<open>h\<close> at most in the \<open>similarity_score\<close> of chunks and in the \<open>aggregated_score\<close> and
  \<open>rank\<close> of sections.\<close>

definition only_scores_changed :: "heap \<Rightarrow> heap \<Rightarrow> bool" where
  "only_scores_changed h h' \<longleftrightarrow>
     (\<forall>c. (chunk_of h' c)\<lparr>similarity_score := similarity_score (chunk_of h c)\<rparr> = chunk_of h c) \<and>
     (\<forall>s. (section_of h' s)\<lparr>aggregated_score := aggregated_score (section_of h s),
                            rank := rank (section_of h s)\<rparr> = section_of h s)"

definition embeddings_present :: "heap \<Rightarrow> sref list \<Rightarrow> bool" where
  "embeddings_present h ss =
     list_all (\<lambda>s. list_all (\<lambda>c. embedding (chunk_of h c) \<noteq> None) (chunks (section_of h s))) ss"

text \<open>The data model's invariant on embeddings: every chunk of the documents carries a
  vector, and all these vectors have the same dimensionality \<open>D\<close>.\<close>

definition chunk_has_dim :: "heap \<Rightarrow> nat \<Rightarrow> cref \<Rightarrow> bool" where
  "chunk_has_dim h D c =
     (case embedding (chunk_of h c) of None \<Rightarrow> False | Some v \<Rightarrow> length v = D)"

definition uniform_dimension :: "heap \<Rightarrow> Document list \<Rightarrow> nat \<Rightarrow> bool" where
  "uniform_dimension h docs D =
     list_all (\<lambda>s. list_all (chunk_has_dim h D) (chunks (section_of h s)))
       (get_all_sections docs)"

text \<open>One section with two chunks whose embeddings have one dimension each, to be ranked
  against the two-dimensional example query.\<close>

definition mismatch_heap :: heap where
  "mismatch_heap =
     \<lparr>chunk_of = (\<lambda>c. example_chunk None)
        (20 := example_embedded ''a0'' [1], 21 := example_embedded ''a1'' [1 / 2]),
      section_of = (\<lambda>s. example_section [])(10 := example_section [20, 21])\<rparr>"

definition mismatch_docs :: "Document list" where
  "mismatch_docs = [\<lparr>filename = ''A'', sections = [10]\<rparr>]"

text \<open>The specification's choice of snippet: index \<open>i\<close> is the highest-scoring chunk of
  \<open>cs\<close>, and the earliest one among those with that score.\<close>

definition is_first_best :: "heap \<Rightarrow> cref list \<Rightarrow> nat \<Rightarrow> bool" where
  "is_first_best h cs i \<longleftrightarrow>
     i < length cs \<and>
     (\<exists>v. similarity_score (chunk_of h (cs ! i)) = Some v \<and>
        (\<forall>j < length cs. \<exists>w. similarity_score (chunk_of h (cs ! j)) = Some w \<and> w \<le> v) \<and>
        (\<forall>j < i. \<exists>w. similarity_score (chunk_of h (cs ! j)) = Some w \<and> w < v))"

text \<open>The analysis record the specification asks for a section: document, title and rank
  of the section, the text of the chosen chunk, and its score rounded to four decimals
  (a multiple of \<open>10^-4\<close> at most half a unit away).\<close>

definition record_matches :: "heap \<Rightarrow> sref \<Rightarrow> analysis \<Rightarrow> bool" where
  "record_matches h s a \<longleftrightarrow>
     (\<exists>i v. is_first_best h (chunks (section_of h s)) i \<and>
        similarity_score (chunk_of h (chunks (section_of h s) ! i)) = Some v \<and>
        refined_text_snippet a = chunk_text (chunk_of h (chunks (section_of h s) ! i)) \<and>
        snippet_relevance_score a = py_round v 4 \<and>
        \<bar>snippet_relevance_score a - v\<bar> \<le> 1 / 20000 \<and>
        (\<exists>k::int. snippet_relevance_score a = of_int k / 10 ^ 4)) \<and>
     importance_rank a = rank (section_of h s) \<and>
     source_document a = source_doc_name (section_of h s) \<and>
     section_title a = title (section_of h s)"

definition best_chunk :: "heap \<Rightarrow> sref \<Rightarrow> cref" where
  "best_chunk h s =
     hd (sort_descending (key_val (\<lambda>c. similarity_score (chunk_of h c)))
           (chunks (section_of h s)))"

definition record_of :: "heap \<Rightarrow> sref \<Rightarrow> analysis" where
  "record_of h s =
     \<lparr>source_document = source_doc_name (section_of h s),
      section_title = title (section_of h s),
      importance_rank = rank (section_of h s),
      refined_text_snippet = chunk_text (chunk_of h (best_chunk h s)),
      snippet_relevance_score =
        py_round (key_val (\<lambda>c. similarity_score (chunk_of h c)) (best_chunk h s)) 4\<rparr>"

text \<open>Two heaps hold the same input for a run when, on every section of the documents
  and on every chunk of these sections, they agree on all fields except the three the
  engine writes (\<open>similarity_score\<close>, \<open>aggregated_score\<close>, \<open>rank\<close>). They may differ in
  those three and on every object the documents do not reach.\<close>

definition same_chunk_input :: "heap \<Rightarrow> heap \<Rightarrow> cref \<Rightarrow> bool" where
  "same_chunk_input h1 h2 c \<longleftrightarrow>
     (chunk_of h1 c)\<lparr>similarity_score := None\<rparr> = (chunk_of h2 c)\<lparr>similarity_score := None\<rparr>"

definition same_section_input :: "heap \<Rightarrow> heap \<Rightarrow> sref \<Rightarrow> bool" where
  "same_section_input h1 h2 s \<longleftrightarrow>
     (section_of h1 s)\<lparr>aggregated_score := None, rank := None\<rparr>
       = (section_of h2 s)\<lparr>aggregated_score := None, rank := None\<rparr> \<and>
     list_all (same_chunk_input h1 h2) (chunks (section_of h1 s))"

definition same_inputs :: "heap \<Rightarrow> heap \<Rightarrow> Document list \<Rightarrow> bool" where
  "same_inputs h1 h2 docs = list_all (same_section_input h1 h2) (get_all_sections docs)"

text \<open>The example heap after an earlier, unrelated run: stale scores and ranks.\<close>

definition example_heap_stale :: heap where
  "example_heap_stale =
     \<lparr>chunk_of = (\<lambda>c. example_chunk (Some 7))
        (20 := (example_embedded ''a0'' [9 / 10, 0])\<lparr>similarity_score := Some 5\<rparr>,
         21 := example_embedded ''a1'' [2 / 10, 0],
         22 := (example_embedded ''b0'' [6 / 10, 0])\<lparr>similarity_score := Some (- 1)\<rparr>),
      section_of = (\<lambda>s. example_section [])
        (10 := (example_section [20, 21])\<lparr>aggregated_score := Some 3, rank := Some 9\<rparr>,
         11 := (example_section [22])\<lparr>rank := Some 1\<rparr>)\<rparr>"

section \<open>Scoring\<close>

lemma section_of_scored [simp]: "section_of (scored h C q) = section_of h"
  by (simp add: scored_def)

lemma embedding_scored [simp]: "embedding (chunk_of (scored h C q) c) = embedding (chunk_of h c)"
  by (simp add: scored_def)

lemma scored_empty [simp]: "scored h {} q = h"
  by (simp add: scored_def)

lemma scored_scored: "scored (scored h A q) B q = scored h (A \<union> B) q"
  by (auto simp: scored_def fun_eq_iff intro!: heap.equality)

lemma set_similarity_scored:
  "chunk_dims_ok h q c \<Longrightarrow>
   np_dot (embedding (chunk_of h c)) q = Inr (inner_product (embedding (chunk_of h c)) q)"
  by (auto simp: chunk_dims_ok_def np_dot_def inner_product_def split: option.splits)

lemma set_similarity_is_scored:
  "set_similarity_score h c (Some (inner_product (embedding (chunk_of h c)) q)) = scored h {c} q"
  by (auto simp: set_similarity_score_def scored_def fun_eq_iff intro!: heap.equality)

lemma chunk_dims_ok_scored [simp]: "chunk_dims_ok (scored h C q) q = chunk_dims_ok h q"
  by (simp add: chunk_dims_ok_def fun_eq_iff)

lemma score_chunks_ok:
  "list_all (chunk_dims_ok h q) cs \<Longrightarrow> score_chunks h cs q = (Inr (), scored h (set cs) q)"
proof (induction cs arbitrary: h)
  case Nil
  then show ?case by simp
next
  case (Cons c cs)
  from Cons.prems have c: "chunk_dims_ok h q c" and cs: "list_all (chunk_dims_ok h q) cs"
    by simp_all
  have "list_all (chunk_dims_ok (scored h {c} q) q) cs"
    using cs by simp
  from Cons.IH [OF this] show ?case
    by (simp add: set_similarity_scored [OF c] set_similarity_is_scored scored_scored)
qed

lemma sections_dims_ok_scored [simp]:
  "sections_dims_ok (scored h C q) q ss = sections_dims_ok h q ss"
  by (simp add: sections_dims_ok_def)

lemma chunks_of_sections_scored [simp]:
  "chunks_of_sections (scored h C q) ss = chunks_of_sections h ss"
  by (simp add: chunks_of_sections_def)

lemma score_all_chunks_ok:
  "sections_dims_ok h q ss \<Longrightarrow>
   score_all_chunks h ss q = (Inr (), scored h (chunks_of_sections h ss) q)"
proof (induction ss arbitrary: h)
  case Nil
  then show ?case by (simp add: chunks_of_sections_def)
next
  case (Cons s ss)
  from Cons.prems have s: "list_all (chunk_dims_ok h q) (chunks (section_of h s))"
    and ss: "sections_dims_ok h q ss"
    by (simp_all add: sections_dims_ok_def)
  have "sections_dims_ok (scored h (set (chunks (section_of h s))) q) q ss"
    using ss by simp
  from Cons.IH [OF this] show ?case
    by (simp add: score_chunks_ok [OF s] scored_scored chunks_of_sections_def)
qed

section \<open>Sorting and aggregation\<close>

lemma mset_sort_descending [simp]: "mset (sort_descending f xs) = mset xs"
  by (simp add: sort_descending_def)

lemma set_sort_descending [simp]: "set (sort_descending f xs) = set xs"
  by (simp add: sort_descending_def)

lemma length_sort_descending [simp]: "length (sort_descending f xs) = length xs"
  by (simp add: sort_descending_def)

lemma distinct_sort_descending [simp]: "distinct (sort_descending f xs) = distinct xs"
  by (simp add: sort_descending_def)

lemma sorted_wrt_sort_descending:
  "sorted_wrt (\<lambda>a b. f b \<le> f a) (sort_descending f xs)"
proof -
  have "sorted (map f (sort_key f (rev xs)))" by simp
  then have "sorted_wrt (\<lambda>a b. f a \<le> f b) (sort_key f (rev xs))"
    by (simp add: sorted_map)
  then show ?thesis
    by (simp add: sort_descending_def sorted_wrt_rev)
qed

lemma sort_descending_stable:
  "filter (\<lambda>y. f y = k) (sort_descending f xs) = filter (\<lambda>y. f y = k) xs"
proof -
  have "filter (\<lambda>y. f y = k) (sort_descending f xs)
        = rev (filter (\<lambda>y. f y = k) (sort_key f (rev xs)))"
    by (simp add: sort_descending_def rev_filter)
  also have "\<dots> = rev (filter (\<lambda>y. f y = k) (rev xs))"
    by (simp only: sort_key_stable)
  also have "\<dots> = filter (\<lambda>y. f y = k) xs"
    by (simp add: rev_filter)
  finally show ?thesis .
qed

lemma map_sort_descending: "map f (sort_descending f xs) = rev (sort (map f xs))"
proof -
  have "sort (map f xs) = map f (sort_key f (rev xs))"
    by (rule properties_for_sort) simp_all
  then show ?thesis
    by (simp add: sort_descending_def rev_map)
qed

lemma sorted_reverse_ok:
  "\<not> list_ex (\<lambda>x. key x = None) xs \<Longrightarrow>
   sorted_reverse key xs = Inr (sort_descending (key_val key) xs)"
  by (simp add: sorted_reverse_def)

lemma np_mean_ok:
  "\<not> list_ex (\<lambda>x. x = None) xs \<Longrightarrow>
   np_mean xs = Inr (sum_list (map (key_val (\<lambda>v. v)) xs) / real (length xs))"
  by (simp add: np_mean_def)

lemma set_slice_to: "set (slice_to xs n) \<subseteq> set xs"
  by (auto simp: slice_to_def dest: in_set_takeD)

lemma mean_of_top_k_ok:
  assumes "\<not> list_ex (\<lambda>x. x = None) xs"
  shows "\<exists>m. mean_of_top_k self xs = Inr m"
proof -
  let ?top = "slice_to (sort_descending (key_val (\<lambda>v. v)) xs)
                (min (top_k_chunks self) (int (length xs)))"
  have "set ?top \<subseteq> set xs"
    using set_slice_to [of "sort_descending (key_val (\<lambda>v. v)) xs"] by simp
  with assms have "\<not> list_ex (\<lambda>x. x = None) ?top"
    by (auto simp: list_ex_iff)
  then show ?thesis
    by (simp add: mean_of_top_k_def sorted_reverse_ok [OF assms] Let_def np_mean_ok)
qed

lemma chunk_of_aggregated [simp]: "chunk_of (aggregated self h S) = chunk_of h"
  by (simp add: aggregated_def)

lemma chunks_aggregated [simp]:
  "chunks (section_of (aggregated self h S) s) = chunks (section_of h s)"
  by (simp add: aggregated_def)

lemma chunk_scores_aggregated [simp]:
  "chunk_scores (aggregated self h S) = chunk_scores h"
  by (simp add: chunk_scores_def fun_eq_iff)

lemma section_value_aggregated [simp]:
  "section_value self (aggregated self h S) = section_value self h"
  by (simp add: section_value_def fun_eq_iff)

lemma all_scored_aggregated [simp]: "all_scored (aggregated self h S) = all_scored h"
  by (simp add: all_scored_def fun_eq_iff)

lemma aggregated_aggregated:
  "aggregated self (aggregated self h A) B = aggregated self h (A \<union> B)"
  by (rule heap.equality) (auto simp: aggregated_def fun_eq_iff section_value_aggregated [unfolded aggregated_def])

lemma set_aggregated_is_aggregated:
  "set_aggregated_score h s (Some (section_value self h s)) = aggregated self h {s}"
  by (auto simp: set_aggregated_score_def aggregated_def fun_eq_iff intro!: heap.equality)

lemma aggregate_section_scores_ok:
  "all_scored h ss \<Longrightarrow>
   aggregate_section_scores self h ss = (Inr (), aggregated self h (set ss))"
proof (induction ss arbitrary: h)
  case Nil
  then show ?case by (simp add: aggregated_def)
next
  case (Cons s ss)
  from Cons.prems have s: "\<not> list_ex (\<lambda>x. x = None) (chunk_scores h s)"
    and ss: "all_scored h ss"
    by (auto simp: all_scored_def chunk_scores_def list_ex_iff list_all_iff)
  have "all_scored (aggregated self h {s}) ss"
    using ss by simp
  note IH = Cons.IH [OF this]
  show ?case
  proof (cases "chunks (section_of h s) = []")
    case True
    then have "set_aggregated_score h s (Some 0) = aggregated self h {s}"
      using set_aggregated_is_aggregated [of h s self] by (simp add: section_value_def)
    with True IH show ?thesis
      by (simp add: aggregated_aggregated)
  next
    case False
    from mean_of_top_k_ok [OF s] obtain m where m: "mean_of_top_k self (chunk_scores h s) = Inr m"
      by blast
    then have "set_aggregated_score h s (Some m) = aggregated self h {s}"
      using False set_aggregated_is_aggregated [of h s self] by (simp add: section_value_def)
    with False m IH show ?thesis
      by (simp add: aggregated_aggregated chunk_scores_def)
  qed
qed

section \<open>Mean of top K\<close>

lemma mean_of_top_k_values:
  assumes "vs \<noteq> []" and "1 \<le> top_k_chunks self"
  shows "mean_of_top_k self (map Some vs) = Inr (mean_of_largest (top_k_chunks self) vs)"
proof -
  let ?xs = "map Some vs"
  let ?K = "top_k_chunks self"
  let ?sorted = "sort_descending (key_val (\<lambda>v. v)) ?xs"
  let ?m = "min (nat ?K) (length vs)"
  have none: "\<not> list_ex (\<lambda>x. x = None) ?xs"
    by (simp add: list_ex_iff)
  have kv: "key_val (\<lambda>v. v) \<circ> Some = (\<lambda>v::real. v)"
    by (simp add: fun_eq_iff key_val_def)
  have vals: "map (key_val (\<lambda>v. v)) ?xs = vs"
    by (simp add: kv)
  have m: "nat (min ?K (int (length vs))) = ?m" and nonneg: "\<not> min ?K (int (length vs)) < 0"
    using assms by (auto simp: min_def)
  have pos: "0 < ?m"
    using assms by (simp add: min_def)
  have slice: "slice_to ?sorted (min ?K (int (length vs))) = take ?m ?sorted"
    using m nonneg by (simp add: slice_to_def)
  have len: "length (take ?m ?sorted) = ?m"
    by simp
  then have nonempty: "take ?m ?sorted \<noteq> []"
    using pos by (metis length_0_conv less_numeral_extra(3))
  have "set (take ?m ?sorted) \<subseteq> set ?xs"
    using set_take_subset [of ?m ?sorted] by simp
  then have none_top: "\<not> list_ex (\<lambda>x. x = None) (take ?m ?sorted)"
    by (auto simp: list_ex_iff)
  have "map (key_val (\<lambda>v. v)) (take ?m ?sorted) = take ?m (rev (sort vs))"
    using map_sort_descending [of "key_val (\<lambda>v. v)" ?xs] by (simp add: take_map [symmetric] kv)
  then have mean: "np_mean (take ?m ?sorted) = Inr (sum_list (take ?m (rev (sort vs))) / real ?m)"
    using len by (simp only: np_mean_ok [OF none_top])
  have "mean_of_top_k self ?xs = np_mean (take ?m ?sorted)"
    using nonempty by (simp add: mean_of_top_k_def Let_def sorted_reverse_ok [OF none] slice)
  with mean show ?thesis
    by (simp add: mean_of_largest_def Let_def)
qed

text \<open>C1. For a section with at least one chunk, all chunks scored, and \<open>K \<ge> 1\<close>, the
  aggregation step succeeds and stores the arithmetic mean of the largest
  \<open>min(K, count)\<close> chunk scores of that section.\<close>

theorem aggregated_score_is_mean_of_top_k:
  assumes "all_scored h ss"
    and "s \<in> set ss"
    and "chunk_scores h s = map Some vs"
    and "vs \<noteq> []"
    and "1 \<le> top_k_chunks self"
  shows "fst (aggregate_section_scores self h ss) = Inr () \<and>
         aggregated_score (section_of (snd (aggregate_section_scores self h ss)) s)
           = Some (mean_of_largest (top_k_chunks self) vs)"
proof -
  from assms(3,4) have "chunks (section_of h s) \<noteq> []"
    by (auto simp: chunk_scores_def)
  then have "section_value self h s = mean_of_largest (top_k_chunks self) vs"
    using mean_of_top_k_values [OF assms(4,5)] assms(3) by (simp add: section_value_def)
  then show ?thesis
    using assms(2) by (simp add: aggregate_section_scores_ok [OF assms(1)] aggregated_def)
qed

lemma chunk_scores_four: "chunk_scores heap_four_scores 0 = map Some [9 / 10, 8 / 10, 5 / 10, 1 / 10]"
  by (simp add: chunk_scores_def heap_four_scores_def example_section_def example_chunk_def)

lemma all_scored_four: "all_scored heap_four_scores [0]"
  by (simp add: all_scored_def heap_four_scores_def example_section_def example_chunk_def
        del: not_None_eq)

theorem aggregated_score_is_mean_of_top_k_witness:
  "all_scored heap_four_scores [0] \<and>
   chunk_scores heap_four_scores 0 = map Some [9 / 10, 8 / 10, 5 / 10, 1 / 10] \<and>
   fst (aggregate_section_scores \<lparr>top_k_chunks = 3, top_n_sections_for_analysis = 5\<rparr>
          heap_four_scores [0]) = Inr () \<and>
   (\<exists>a. aggregated_score (section_of (snd (aggregate_section_scores
            \<lparr>top_k_chunks = 3, top_n_sections_for_analysis = 5\<rparr> heap_four_scores [0])) 0) = Some a
        \<and> \<bar>a - (9 / 10 + 8 / 10 + 5 / 10) / 3\<bar> \<le> 1 / 10 ^ 6)"
proof -
  let ?self = "\<lparr>top_k_chunks = 3, top_n_sections_for_analysis = 5\<rparr>"
  have m: "mean_of_largest 3 [9 / 10, 8 / 10, 5 / 10, 1 / 10] = (9 / 10 + 8 / 10 + 5 / 10) / 3"
    by (simp add: mean_of_largest_def)
  have "fst (aggregate_section_scores ?self heap_four_scores [0]) = Inr () \<and>
        aggregated_score (section_of (snd (aggregate_section_scores ?self heap_four_scores [0])) 0)
          = Some (mean_of_largest (top_k_chunks ?self) [9 / 10, 8 / 10, 5 / 10, 1 / 10])"
    by (rule aggregated_score_is_mean_of_top_k [OF all_scored_four _ chunk_scores_four])
       simp_all
  with m show ?thesis
    using all_scored_four chunk_scores_four
    by (simp del: aggregate_section_scores.simps)
qed

section \<open>Rank assignment and the closed form of rank\_sections\_globally\<close>

lemma insort_key_cong:
  "\<forall>y \<in> insert x (set ys). f y = g y \<Longrightarrow> insort_key f x ys = insort_key g x ys"
  by (induction ys) auto

lemma sort_key_cong: "\<forall>x \<in> set xs. f x = g x \<Longrightarrow> sort_key f xs = sort_key g xs"
proof (induction xs)
  case Nil
  then show ?case by simp
next
  case (Cons x xs)
  then have "sort_key f xs = sort_key g xs" by simp
  moreover have "\<forall>y \<in> insert x (set (sort_key g xs)). f y = g y"
    using Cons.prems by simp
  ultimately show ?case
    by (simp add: insort_key_cong)
qed

lemma sort_descending_cong:
  "\<forall>x \<in> set xs. f x = g x \<Longrightarrow> sort_descending f xs = sort_descending g xs"
  by (simp add: sort_descending_def sort_key_cong)

lemma chunk_of_assign_ranks [simp]: "chunk_of (assign_ranks h xs) = chunk_of h"
  by (induction h xs rule: assign_ranks.induct) (simp_all add: set_rank_def)

lemma section_of_assign_ranks:
  "section_of (assign_ranks h xs) s
     = (section_of h s)\<lparr>rank := final_rank xs s (rank (section_of h s))\<rparr>"
  by (induction h xs rule: assign_ranks.induct) (simp_all add: set_rank_def)

lemma final_rank_notin: "s \<notin> snd ` set xs \<Longrightarrow> final_rank xs s r = r"
  by (induction xs s r rule: final_rank.induct) auto

lemma final_rank_indep: "s \<in> snd ` set xs \<Longrightarrow> final_rank xs s r = final_rank xs s r'"
proof (induction xs s r arbitrary: r' rule: final_rank.induct)
  case (1 s r)
  then show ?case by simp
next
  case (2 i t xs s r)
  show ?case
  proof (cases "s \<in> snd ` set xs")
    case True
    with "2.IH" show ?thesis by simp
  next
    case False
    with "2.prems" have "t = s" by auto
    then show ?thesis by simp
  qed
qed

lemma snd_set_enumerate [simp]: "snd ` set (enumerate n xs) = set xs"
  by (metis map_snd_enumerate set_map)

lemma final_rank_enumerate:
  "distinct rs \<Longrightarrow> i < length rs \<Longrightarrow>
   final_rank (enumerate n rs) (rs ! i) r = Some (int (n + i) + 1)"
proof (induction rs arbitrary: n i r)
  case Nil
  then show ?case by simp
next
  case (Cons a rs)
  show ?case
  proof (cases i)
    case 0
    with Cons.prems show ?thesis
      by (simp add: final_rank_notin)
  next
    case (Suc j)
    with Cons.prems have "rs ! j \<noteq> a" and "j < length rs" and "distinct rs"
      by auto
    with Cons.IH [of j "Suc n"] Suc show ?thesis
      by simp
  qed
qed

lemma all_scored_scored_heap: "all_scored (scored_heap h docs q) (get_all_sections docs)"
  by (auto simp: all_scored_def scored_heap_def scored_def chunks_of_sections_def list_all_iff)

lemma aggregated_score_aggregated_heap:
  "s \<in> set (get_all_sections docs) \<Longrightarrow>
   aggregated_score (section_of (aggregated_heap self h docs q) s)
     = Some (section_value self (scored_heap h docs q) s)"
  by (simp add: aggregated_heap_def aggregated_def)

lemma rank_sections_globally_ok:
  assumes "dims_match h docs q"
  shows "rank_sections_globally self h docs q
           = (Inr (ranked self h docs q), ranked_heap self h docs q)"
proof -
  let ?all = "get_all_sections docs"
  let ?h2 = "aggregated_heap self h docs q"
  let ?key = "\<lambda>s. aggregated_score (section_of ?h2 s)"
  have score: "score_all_chunks h ?all q = (Inr (), scored_heap h docs q)"
    using assms by (simp add: dims_match_def scored_heap_def score_all_chunks_ok)
  have agg: "aggregate_section_scores self (scored_heap h docs q) ?all = (Inr (), ?h2)"
    by (simp add: aggregate_section_scores_ok [OF all_scored_scored_heap] aggregated_heap_def)
  have keep: "filter (\<lambda>s. ?key s \<noteq> None) ?all = ?all"
    by (simp add: aggregated_score_aggregated_heap del: not_None_eq)
  have none: "\<not> list_ex (\<lambda>s. ?key s = None) ?all"
    by (simp add: list_ex_iff aggregated_score_aggregated_heap)
  have "sort_descending (key_val ?key) ?all = ranked self h docs q"
    unfolding ranked_def
    by (rule sort_descending_cong) (simp add: key_val_def aggregated_score_aggregated_heap)
  then have sorted: "sorted_reverse ?key ?all = Inr (ranked self h docs q)"
    by (simp only: sorted_reverse_ok [OF none])
  show ?thesis
    by (simp add: rank_sections_globally_def Let_def score agg keep sorted ranked_heap_def
          del: not_None_eq)
qed

section \<open>Properties of the ranked list and the final heap\<close>

lemma set_ranked [simp]: "set (ranked self h docs q) = set (get_all_sections docs)"
  by (simp add: ranked_def)

lemma mset_ranked [simp]: "mset (ranked self h docs q) = mset (get_all_sections docs)"
  by (simp add: ranked_def)

lemma length_ranked [simp]: "length (ranked self h docs q) = length (get_all_sections docs)"
  by (simp add: ranked_def)

lemma distinct_ranked [simp]:
  "distinct (ranked self h docs q) = distinct (get_all_sections docs)"
  by (simp add: ranked_def)

lemma sorted_ranked:
  "sorted_wrt (\<lambda>a b. section_value self (scored_heap h docs q) b
                      \<le> section_value self (scored_heap h docs q) a)
     (ranked self h docs q)"
  unfolding ranked_def by (rule sorted_wrt_sort_descending)

lemma stable_ranked:
  "filter (\<lambda>s. section_value self (scored_heap h docs q) s = v) (ranked self h docs q)
   = filter (\<lambda>s. section_value self (scored_heap h docs q) s = v) (get_all_sections docs)"
  unfolding ranked_def by (rule sort_descending_stable)

lemma section_of_ranked_heap:
  "section_of (ranked_heap self h docs q) s
     = (section_of (aggregated_heap self h docs q) s)
         \<lparr>rank := final_rank (enumerate 0 (ranked self h docs q)) s (rank (section_of h s))\<rparr>"
  by (simp add: ranked_heap_def section_of_assign_ranks aggregated_heap_def aggregated_def
        scored_heap_def)

lemma chunk_of_ranked_heap: "chunk_of (ranked_heap self h docs q) = chunk_of (scored_heap h docs q)"
  by (simp add: ranked_heap_def aggregated_heap_def)

lemma aggregated_score_ranked_heap:
  "s \<in> set (get_all_sections docs) \<Longrightarrow>
   aggregated_score (section_of (ranked_heap self h docs q) s)
     = Some (section_value self (scored_heap h docs q) s)"
  by (simp add: section_of_ranked_heap aggregated_score_aggregated_heap)

lemma rank_ranked_heap:
  assumes "distinct (get_all_sections docs)" and "i < length (get_all_sections docs)"
  shows "rank (section_of (ranked_heap self h docs q) (ranked self h docs q ! i))
           = Some (int i + 1)"
  using final_rank_enumerate [of "ranked self h docs q" i 0] assms
  by (simp add: section_of_ranked_heap)

lemma chunks_ranked_heap [simp]:
  "chunks (section_of (ranked_heap self h docs q) s) = chunks (section_of h s)"
  by (simp add: section_of_ranked_heap aggregated_heap_def scored_heap_def)

lemma example_dims_match: "dims_match example_heap example_docs example_query"
  by (simp add: dims_match_def sections_dims_ok_def get_all_sections_def example_docs_def
        example_heap_def example_section_def example_embedded_def example_query_def
        chunk_dims_ok_def)

lemma example_distinct: "distinct (get_all_sections example_docs)"
  by (simp add: get_all_sections_def example_docs_def)

lemma example_section_values:
  "section_value example_engine (scored_heap example_heap example_docs example_query) 10 = 11 / 20"
  "section_value example_engine (scored_heap example_heap example_docs example_query) 11 = 6 / 10"
  "section_value example_engine (scored_heap example_heap example_docs example_query) 12 = 0"
  by (simp_all add: section_value_def scored_heap_def scored_def chunks_of_sections_def
        get_all_sections_def example_docs_def example_heap_def example_section_def
        example_embedded_def example_query_def example_engine_def chunk_scores_def
        inner_product_def mean_of_top_k_def sorted_reverse_def sort_descending_def
        key_val_def slice_to_def np_mean_def)

lemma example_all_sections: "get_all_sections example_docs = [10, 12, 11]"
  by (simp add: get_all_sections_def example_docs_def)

lemma example_ranked:
  "ranked example_engine example_heap example_docs example_query = [11, 10, 12]"
  by (simp add: ranked_def sort_descending_def example_all_sections example_section_values)

section \<open>Global ranking: order, permutation, ranks\<close>

text \<open>C2. When every chunk's embedding has the query's dimensionality, the call returns a
  list sorted in non-increasing order of \<open>aggregated_score\<close>, and for every score value
  the sections carrying it appear in the order they have in the flattened input.\<close>

theorem ranking_sorted_and_stable:
  assumes "dims_match h docs q"
  shows "\<exists>rs h'. rank_sections_globally self h docs q = (Inr rs, h') \<and>
           sorted_wrt (\<lambda>a b. \<exists>x y. aggregated_score (section_of h' a) = Some x \<and>
                                   aggregated_score (section_of h' b) = Some y \<and> y \<le> x) rs \<and>
           (\<forall>v. filter (\<lambda>s. aggregated_score (section_of h' s) = Some v) rs
                = filter (\<lambda>s. aggregated_score (section_of h' s) = Some v)
                    (get_all_sections docs))"
proof -
  let ?rs = "ranked self h docs q"
  let ?h' = "ranked_heap self h docs q"
  let ?f = "section_value self (scored_heap h docs q)"
  have score: "aggregated_score (section_of ?h' s) = Some (?f s)"
    if "s \<in> set (get_all_sections docs)" for s
    using that by (rule aggregated_score_ranked_heap)
  have "sorted_wrt (\<lambda>a b. \<exists>x y. aggregated_score (section_of ?h' a) = Some x \<and>
                        aggregated_score (section_of ?h' b) = Some y \<and> y \<le> x) ?rs"
    using sorted_ranked [of self h docs q]
  proof (rule sorted_wrt_mono_rel [rotated])
    fix a b
    assume "a \<in> set ?rs" "b \<in> set ?rs" "?f b \<le> ?f a"
    then show "\<exists>x y. aggregated_score (section_of ?h' a) = Some x \<and>
                 aggregated_score (section_of ?h' b) = Some y \<and> y \<le> x"
      by (simp add: score)
  qed
  moreover have "filter (\<lambda>s. aggregated_score (section_of ?h' s) = Some v) ?rs
                 = filter (\<lambda>s. aggregated_score (section_of ?h' s) = Some v)
                     (get_all_sections docs)" for v
  proof -
    have "filter (\<lambda>s. aggregated_score (section_of ?h' s) = Some v) ?rs
          = filter (\<lambda>s. ?f s = v) ?rs"
      by (rule filter_cong) (simp_all add: score)
    also have "\<dots> = filter (\<lambda>s. ?f s = v) (get_all_sections docs)"
      by (rule stable_ranked)
    also have "\<dots> = filter (\<lambda>s. aggregated_score (section_of ?h' s) = Some v)
                        (get_all_sections docs)"
      by (rule filter_cong) (simp_all add: score)
    finally show ?thesis .
  qed
  ultimately show ?thesis
    by (simp add: rank_sections_globally_ok [OF assms])
qed

theorem ranking_sorted_and_stable_witness:
  "dims_match example_heap example_docs example_query \<and>
   (\<exists>rs h'. rank_sections_globally example_engine example_heap example_docs example_query
              = (Inr rs, h') \<and>
      sorted_wrt (\<lambda>a b. \<exists>x y. aggregated_score (section_of h' a) = Some x \<and>
                              aggregated_score (section_of h' b) = Some y \<and> y \<le> x) rs \<and>
      (\<forall>v. filter (\<lambda>s. aggregated_score (section_of h' s) = Some v) rs
           = filter (\<lambda>s. aggregated_score (section_of h' s) = Some v)
               (get_all_sections example_docs)))"
  using ranking_sorted_and_stable [OF example_dims_match, of example_engine] example_dims_match
  by blast



text \<open>C9. In the returned list the section at index \<open>i\<close> has rank \<open>i + 1\<close>, so indexing
  the list at \<open>rank - 1\<close>, as \<open>OutputBuilder.build\<close> does, yields the section that
  carries that rank.\<close>

theorem rank_is_index_plus_one:
  assumes "dims_match h docs q" and "distinct (get_all_sections docs)"
  shows "\<exists>rs h'. rank_sections_globally self h docs q = (Inr rs, h') \<and>
           (\<forall>i < length rs. rank (section_of h' (rs ! i)) = Some (int i + 1)) \<and>
           (\<forall>s \<in> set rs. \<exists>r. rank (section_of h' s) = Some r \<and> getitem rs (r - 1) = Inr s)"
proof -
  let ?rs = "ranked self h docs q"
  let ?h' = "ranked_heap self h docs q"
  have idx: "rank (section_of ?h' (?rs ! i)) = Some (int i + 1)" if "i < length ?rs" for i
    using that by (simp add: rank_ranked_heap [OF assms(2)])
  have "\<exists>r. rank (section_of ?h' s) = Some r \<and> getitem ?rs (r - 1) = Inr s"
    if "s \<in> set ?rs" for s
  proof -
    from that obtain i where i: "i < length ?rs" "?rs ! i = s"
      by (metis in_set_conv_nth)
    then have "rank (section_of ?h' s) = Some (int i + 1)"
      using idx by blast
    moreover have "getitem ?rs (int i + 1 - 1) = Inr s"
      using i by (simp add: getitem_def)
    ultimately show ?thesis by blast
  qed
  with idx show ?thesis
    by (simp add: rank_sections_globally_ok [OF assms(1)])
qed

theorem rank_is_index_plus_one_witness:
  "dims_match example_heap example_docs example_query \<and>
   distinct (get_all_sections example_docs) \<and>
   (\<exists>rs h'. rank_sections_globally example_engine example_heap example_docs example_query
              = (Inr rs, h') \<and>
      (\<forall>i < length rs. rank (section_of h' (rs ! i)) = Some (int i + 1)) \<and>
      (\<forall>s \<in> set rs. \<exists>r. rank (section_of h' s) = Some r \<and> getitem rs (r - 1) = Inr s))"
  using rank_is_index_plus_one [OF example_dims_match example_distinct, of example_engine]
        example_dims_match example_distinct
  by blast

section \<open>Empty inputs\<close>

lemma section_value_empty:
  "chunks (section_of h s) = [] \<Longrightarrow> section_value self (scored_heap h docs q) s = 0"
  by (simp add: section_value_def scored_heap_def)

text \<open>C6. The empty document list yields an empty ranking and an empty analysis, and the
  heap is left as it was. A section without chunks gets the aggregated score 0 and a rank
  between 1 and N that is larger than the rank of every section with a positive score.\<close>

theorem empty_inputs_are_not_errors:
  "rank_sections_globally self h [] q = (Inr [], h) \<and>
   perform_sub_section_analysis self h [] = (Inr [], h) \<and>
   (dims_match h docs q \<and> distinct (get_all_sections docs) \<and>
    s \<in> set (get_all_sections docs) \<and> chunks (section_of h s) = [] \<longrightarrow>
    (\<exists>rs h'. rank_sections_globally self h docs q = (Inr rs, h') \<and>
       aggregated_score (section_of h' s) = Some 0 \<and>
       (\<exists>r. rank (section_of h' s) = Some r \<and> 1 \<le> r \<and> r \<le> int (length rs) \<and>
          (\<forall>t \<in> set rs. \<forall>x. aggregated_score (section_of h' t) = Some x \<and> 0 < x \<longrightarrow>
             (\<exists>r'. rank (section_of h' t) = Some r' \<and> r' < r)))))"
proof (intro conjI impI)
  show "rank_sections_globally self h [] q = (Inr [], h)"
    by (simp add: rank_sections_globally_def get_all_sections_def sorted_reverse_def
          sort_descending_def)
  show "perform_sub_section_analysis self h [] = (Inr [], h)"
    by (simp add: perform_sub_section_analysis_def slice_to_def)
next
  assume hyps: "dims_match h docs q \<and> distinct (get_all_sections docs) \<and>
    s \<in> set (get_all_sections docs) \<and> chunks (section_of h s) = []"
  let ?rs = "ranked self h docs q"
  let ?h' = "ranked_heap self h docs q"
  let ?f = "section_value self (scored_heap h docs q)"
  from hyps have dims: "dims_match h docs q" and dist: "distinct (get_all_sections docs)"
    and s: "s \<in> set (get_all_sections docs)" and empty: "chunks (section_of h s) = []"
    by simp_all
  have score: "aggregated_score (section_of ?h' t) = Some (?f t)"
    if "t \<in> set (get_all_sections docs)" for t
    using that by (rule aggregated_score_ranked_heap)
  have zero: "?f s = 0"
    using empty by (rule section_value_empty)
  from s obtain j where j: "j < length ?rs" "?rs ! j = s"
    by (metis in_set_conv_nth set_ranked)
  have rank_s: "rank (section_of ?h' s) = Some (int j + 1)"
    using rank_ranked_heap [OF dist, of j self h q] j by simp
  have below: "\<exists>r'. rank (section_of ?h' t) = Some r' \<and> r' < int j + 1"
    if t: "t \<in> set ?rs" and x: "aggregated_score (section_of ?h' t) = Some x" "0 < x" for t x
  proof -
    from t obtain i where i: "i < length ?rs" "?rs ! i = t"
      by (metis in_set_conv_nth)
    from t x have pos: "0 < ?f t"
      by (simp add: score)
    have "\<not> j \<le> i"
    proof
      assume "j \<le> i"
      then have "j < i \<or> j = i" by auto
      then show False
      proof
        assume "j < i"
        with sorted_ranked [of self h docs q] i(1) have "?f (?rs ! i) \<le> ?f (?rs ! j)"
          by (simp add: sorted_wrt_iff_nth_less)
        with i j zero pos show False by simp
      next
        assume "j = i"
        with i j zero pos show False by simp
      qed
    qed
    moreover have "rank (section_of ?h' t) = Some (int i + 1)"
      using rank_ranked_heap [OF dist, of i self h q] i by simp
    ultimately show ?thesis by simp
  qed
  have "aggregated_score (section_of ?h' s) = Some 0"
    using score [OF s] zero by simp
  moreover have "1 \<le> int j + 1 \<and> int j + 1 \<le> int (length ?rs)"
    using j(1) by simp
  ultimately show "\<exists>rs h'. rank_sections_globally self h docs q = (Inr rs, h') \<and>
       aggregated_score (section_of h' s) = Some 0 \<and>
       (\<exists>r. rank (section_of h' s) = Some r \<and> 1 \<le> r \<and> r \<le> int (length rs) \<and>
          (\<forall>t \<in> set rs. \<forall>x. aggregated_score (section_of h' t) = Some x \<and> 0 < x \<longrightarrow>
             (\<exists>r'. rank (section_of h' t) = Some r' \<and> r' < r)))"
    unfolding rank_sections_globally_ok [OF dims]
    using rank_s below by blast
qed

lemma example_empty_section: "chunks (section_of example_heap 12) = []"
  by (simp add: example_heap_def example_section_def)

theorem empty_inputs_are_not_errors_witness:
  "dims_match example_heap example_docs example_query \<and>
   distinct (get_all_sections example_docs) \<and>
   12 \<in> set (get_all_sections example_docs) \<and> chunks (section_of example_heap 12) = [] \<and>
   (\<exists>rs h'. rank_sections_globally example_engine example_heap example_docs example_query
              = (Inr rs, h') \<and>
       aggregated_score (section_of h' 12) = Some 0 \<and>
       (\<exists>r. rank (section_of h' 12) = Some r \<and> 1 \<le> r \<and> r \<le> int (length rs) \<and>
          (\<forall>t \<in> set rs. \<forall>x. aggregated_score (section_of h' t) = Some x \<and> 0 < x \<longrightarrow>
             (\<exists>r'. rank (section_of h' t) = Some r' \<and> r' < r))))"
proof -
  have "12 \<in> set (get_all_sections example_docs)"
    by (simp add: example_all_sections)
  then show ?thesis
    using empty_inputs_are_not_errors
            [of example_engine example_heap example_query example_docs 12]
          example_dims_match example_distinct example_empty_section
    by blast
qed

section \<open>Frame\<close>

lemma only_scores_changed_refl [simp]: "only_scores_changed h h"
  by (simp add: only_scores_changed_def)

lemma only_scores_changed_trans:
  assumes "only_scores_changed h1 h2" and "only_scores_changed h2 h3"
  shows "only_scores_changed h1 h3"
  unfolding only_scores_changed_def
proof (intro conjI allI)
  fix c
  from assms(2) have "(chunk_of h3 c)\<lparr>similarity_score := similarity_score (chunk_of h2 c)\<rparr>
                      = chunk_of h2 c"
    by (simp add: only_scores_changed_def)
  then have "(chunk_of h3 c)\<lparr>similarity_score := similarity_score (chunk_of h1 c)\<rparr>
             = (chunk_of h2 c)\<lparr>similarity_score := similarity_score (chunk_of h1 c)\<rparr>"
    by (metis Chunk.update_convs(5) Chunk.surjective)
  with assms(1) show "(chunk_of h3 c)\<lparr>similarity_score := similarity_score (chunk_of h1 c)\<rparr>
                      = chunk_of h1 c"
    by (simp add: only_scores_changed_def)
next
  fix s
  let ?u = "\<lambda>x y. x\<lparr>aggregated_score := aggregated_score y, rank := rank y\<rparr>"
  from assms(2) have "?u (section_of h3 s) (section_of h2 s) = section_of h2 s"
    by (simp add: only_scores_changed_def)
  then have "?u (?u (section_of h3 s) (section_of h2 s)) (section_of h1 s)
             = ?u (section_of h2 s) (section_of h1 s)"
    by simp
  then have "?u (section_of h3 s) (section_of h1 s) = ?u (section_of h2 s) (section_of h1 s)"
    by simp
  with assms(1) show "?u (section_of h3 s) (section_of h1 s) = section_of h1 s"
    by (simp add: only_scores_changed_def)
qed

lemma only_scores_changed_set_similarity [simp]:
  "only_scores_changed h (set_similarity_score h c v)"
  by (simp add: only_scores_changed_def set_similarity_score_def)

lemma only_scores_changed_set_aggregated [simp]:
  "only_scores_changed h (set_aggregated_score h s v)"
  by (simp add: only_scores_changed_def set_aggregated_score_def)

lemma only_scores_changed_set_rank [simp]:
  "only_scores_changed h (set_rank h s v)"
  by (simp add: only_scores_changed_def set_rank_def)

lemma score_chunks_frame: "only_scores_changed h (snd (score_chunks h cs q))"
proof (induction cs arbitrary: h)
  case Nil
  then show ?case by simp
next
  case (Cons c cs)
  show ?case
  proof (cases "np_dot (embedding (chunk_of h c)) q")
    case (Inl e)
    then show ?thesis by simp
  next
    case (Inr v)
    have "only_scores_changed h (set_similarity_score h c (Some v))"
      by simp
    from only_scores_changed_trans [OF this Cons.IH] Inr show ?thesis
      by simp
  qed
qed

lemma score_all_chunks_frame: "only_scores_changed h (snd (score_all_chunks h ss q))"
proof (induction ss arbitrary: h)
  case Nil
  then show ?case by simp
next
  case (Cons s ss)
  obtain r h1 where step: "score_chunks h (chunks (section_of h s)) q = (r, h1)"
    by (cases "score_chunks h (chunks (section_of h s)) q")
  then have h1: "only_scores_changed h h1"
    using score_chunks_frame [of h "chunks (section_of h s)" q] by simp
  show ?case
  proof (cases r)
    case (Inl e)
    with step h1 show ?thesis by simp
  next
    case (Inr u)
    with step only_scores_changed_trans [OF h1 Cons.IH [of h1]] show ?thesis
      by simp
  qed
qed

lemma aggregate_section_scores_frame:
  "only_scores_changed h (snd (aggregate_section_scores self h ss))"
proof (induction ss arbitrary: h)
  case Nil
  then show ?case by simp
next
  case (Cons s ss)
  have step: "only_scores_changed h (snd (aggregate_section_scores self
                (set_aggregated_score h s v) ss))" for v
    using only_scores_changed_trans [OF only_scores_changed_set_aggregated Cons.IH] .
  show ?case
    by (cases "mean_of_top_k self
                 (map (\<lambda>c. similarity_score (chunk_of h c)) (chunks (section_of h s)))")
       (simp_all add: step)
qed

lemma assign_ranks_frame: "only_scores_changed h (assign_ranks h xs)"
proof (induction h xs rule: assign_ranks.induct)
  case (1 h)
  then show ?case by simp
next
  case (2 h i s xs)
  from only_scores_changed_trans [OF only_scores_changed_set_rank this] show ?case
    by simp
qed

text \<open>C10. On every input, failing or not, \<open>rank_sections_globally\<close> changes nothing but
  \<open>similarity_score\<close> of chunks and \<open>aggregated_score\<close> and \<open>rank\<close> of sections (text,
  embedding, title, page number, names, raw text and the chunk lists keep their values;
  the document list and the section lists are values the model cannot change), and
  \<open>perform_sub_section_analysis\<close> returns the heap it received.\<close>

theorem engine_frame:
  "only_scores_changed h (snd (rank_sections_globally self h docs q)) \<and>
   snd (perform_sub_section_analysis self h ranked_sections) = h"
proof
  let ?all = "get_all_sections docs"
  obtain r1 h1 where s1: "score_all_chunks h ?all q = (r1, h1)"
    by (cases "score_all_chunks h ?all q")
  then have f1: "only_scores_changed h h1"
    using score_all_chunks_frame [of h ?all q] by simp
  obtain r2 h2 where s2: "aggregate_section_scores self h1 ?all = (r2, h2)"
    by (cases "aggregate_section_scores self h1 ?all")
  then have "only_scores_changed h1 h2"
    using aggregate_section_scores_frame [of h1 self ?all] by simp
  with f1 have f2: "only_scores_changed h h2"
    by (rule only_scores_changed_trans)
  have f3: "only_scores_changed h (assign_ranks h2 xs)" for xs
    using only_scores_changed_trans [OF f2 assign_ranks_frame] .
  show "only_scores_changed h (snd (rank_sections_globally self h docs q))"
    using f1 f2 f3
    by (simp add: rank_sections_globally_def Let_def s1 s2 split: sum.splits)
  show "snd (perform_sub_section_analysis self h ranked_sections) = h"
    by (simp add: perform_sub_section_analysis_def)
qed

section \<open>Failing runs\<close>

lemma chunk_dims_ok_set_similarity [simp]:
  "chunk_dims_ok (set_similarity_score h c v) q = chunk_dims_ok h q"
  by (simp add: chunk_dims_ok_def set_similarity_score_def fun_eq_iff)

lemma embedding_set_similarity [simp]:
  "embedding (chunk_of (set_similarity_score h c v) c') = embedding (chunk_of h c')"
  by (simp add: set_similarity_score_def)

lemma section_of_set_similarity [simp]:
  "section_of (set_similarity_score h c v) = section_of h"
  by (simp add: set_similarity_score_def)

lemma np_dot_error:
  "\<not> chunk_dims_ok h q c \<Longrightarrow> \<exists>e. np_dot (embedding (chunk_of h c)) q = Inl e"
  by (auto simp: chunk_dims_ok_def np_dot_def split: option.splits)

lemma np_dot_value_error:
  "np_dot a q = Inl e \<Longrightarrow> a \<noteq> None \<Longrightarrow> e = ValueError"
  by (auto simp: np_dot_def split: option.splits if_splits)

lemma np_dot_value:
  "np_dot a q = Inr v \<Longrightarrow> v = inner_product a q"
  by (auto simp: np_dot_def inner_product_def split: option.splits if_splits)

lemma score_chunks_fails:
  "\<not> list_all (chunk_dims_ok h q) cs \<Longrightarrow> \<exists>e. fst (score_chunks h cs q) = Inl e"
proof (induction cs arbitrary: h)
  case Nil
  then show ?case by simp
next
  case (Cons c cs)
  show ?case
  proof (cases "np_dot (embedding (chunk_of h c)) q")
    case (Inl e)
    then show ?thesis by simp
  next
    case (Inr v)
    with np_dot_error [of h q c] have "chunk_dims_ok h q c"
      by auto
    with Cons.prems have "\<not> list_all (chunk_dims_ok (set_similarity_score h c (Some v)) q) cs"
      by simp
    from Cons.IH [OF this] Inr show ?thesis
      by simp
  qed
qed

lemma score_chunks_error_kind:
  "fst (score_chunks h cs q) = Inl e \<Longrightarrow>
   list_all (\<lambda>c. embedding (chunk_of h c) \<noteq> None) cs \<Longrightarrow> e = ValueError"
proof (induction cs arbitrary: h)
  case Nil
  then show ?case by simp
next
  case (Cons c cs)
  show ?case
  proof (cases "np_dot (embedding (chunk_of h c)) q")
    case (Inl e')
    with Cons.prems show ?thesis
      by (auto dest: np_dot_value_error)
  next
    case (Inr v)
    with Cons.prems Cons.IH [of "set_similarity_score h c (Some v)"] show ?thesis
      by simp
  qed
qed

lemma score_chunks_written:
  "chunk_of (snd (score_chunks h cs q)) c = chunk_of h c \<or>
   chunk_of (snd (score_chunks h cs q)) c
     = (chunk_of h c)\<lparr>similarity_score := Some (inner_product (embedding (chunk_of h c)) q)\<rparr>"
proof (induction cs arbitrary: h)
  case Nil
  then show ?case by simp
next
  case (Cons a cs)
  show ?case
  proof (cases "np_dot (embedding (chunk_of h a)) q")
    case (Inl e)
    then show ?thesis by simp
  next
    case (Inr v)
    then have v: "v = inner_product (embedding (chunk_of h a)) q"
      by (rule np_dot_value)
    from Cons.IH [of "set_similarity_score h a (Some v)"] Inr v show ?thesis
      by (auto simp: set_similarity_score_def split: if_splits)
  qed
qed

lemma section_of_score_chunks [simp]: "section_of (snd (score_chunks h cs q)) = section_of h"
proof (induction cs arbitrary: h)
  case Nil
  then show ?case by simp
next
  case (Cons c cs)
  then show ?case
    by (cases "np_dot (embedding (chunk_of h c)) q") simp_all
qed

lemma embedding_score_chunks [simp]:
  "embedding (chunk_of (snd (score_chunks h cs q)) c) = embedding (chunk_of h c)"
  using score_chunks_written [of h cs q c] by auto

lemma score_chunks_cases:
  obtains (ok) "list_all (chunk_dims_ok h q) cs" "score_chunks h cs q = (Inr (), scored h (set cs) q)"
  | (fail) e h' where "\<not> list_all (chunk_dims_ok h q) cs" "score_chunks h cs q = (Inl e, h')"
proof (cases "list_all (chunk_dims_ok h q) cs")
  case True
  then show ?thesis using ok score_chunks_ok by blast
next
  case False
  then show ?thesis
    using fail score_chunks_fails [OF False] by (metis prod.collapse)
qed

lemma score_all_chunks_fails:
  "\<not> sections_dims_ok h q ss \<Longrightarrow> \<exists>e. fst (score_all_chunks h ss q) = Inl e"
proof (induction ss arbitrary: h)
  case Nil
  then show ?case by (simp add: sections_dims_ok_def)
next
  case (Cons s ss)
  show ?case
  proof (cases rule: score_chunks_cases [where h = h and q = q and cs = "chunks (section_of h s)"])
    case ok
    with Cons.prems have "\<not> sections_dims_ok (scored h (set (chunks (section_of h s))) q) q ss"
      by (simp add: sections_dims_ok_def)
    from Cons.IH [OF this] ok show ?thesis by simp
  next
    case (fail e h')
    then show ?thesis by simp
  qed
qed

lemma section_of_score_all_chunks [simp]:
  "section_of (snd (score_all_chunks h ss q)) = section_of h"
proof (induction ss arbitrary: h)
  case Nil
  then show ?case by simp
next
  case (Cons s ss)
  obtain r h1 where step: "score_chunks h (chunks (section_of h s)) q = (r, h1)"
    by (cases "score_chunks h (chunks (section_of h s)) q")
  then have "section_of h1 = section_of h"
    using section_of_score_chunks [of h "chunks (section_of h s)" q] by simp
  with step Cons.IH [of h1] show ?case
    by (cases r) simp_all
qed

lemma score_all_chunks_written:
  "chunk_of (snd (score_all_chunks h ss q)) c = chunk_of h c \<or>
   chunk_of (snd (score_all_chunks h ss q)) c
     = (chunk_of h c)\<lparr>similarity_score := Some (inner_product (embedding (chunk_of h c)) q)\<rparr>"
proof (induction ss arbitrary: h)
  case Nil
  then show ?case by simp
next
  case (Cons s ss)
  obtain r h1 where step: "score_chunks h (chunks (section_of h s)) q = (r, h1)"
    by (cases "score_chunks h (chunks (section_of h s)) q")
  have h1: "chunk_of h1 c = chunk_of h c \<or>
            chunk_of h1 c = (chunk_of h c)\<lparr>similarity_score :=
                               Some (inner_product (embedding (chunk_of h c)) q)\<rparr>"
    using score_chunks_written [of h "chunks (section_of h s)" q c] step by simp
  show ?case
  proof (cases r)
    case (Inl e)
    with step h1 show ?thesis by simp
  next
    case (Inr u)
    have emb: "embedding (chunk_of h1 c) = embedding (chunk_of h c)"
      using embedding_score_chunks [of h "chunks (section_of h s)" q c] step by simp
    from Cons.IH [of h1] h1 show ?thesis
      unfolding score_all_chunks.simps step prod.case Inr sum.case emb
      by auto
  qed
qed

lemma score_all_chunks_error_kind:
  "fst (score_all_chunks h ss q) = Inl e \<Longrightarrow> embeddings_present h ss \<Longrightarrow> e = ValueError"
proof (induction ss arbitrary: h)
  case Nil
  then show ?case by simp
next
  case (Cons s ss)
  obtain r h1 where step: "score_chunks h (chunks (section_of h s)) q = (r, h1)"
    by (cases "score_chunks h (chunks (section_of h s)) q")
  from Cons.prems(2) have here: "list_all (\<lambda>c. embedding (chunk_of h c) \<noteq> None)
                                   (chunks (section_of h s))"
    and rest: "embeddings_present h ss"
    by (simp_all add: embeddings_present_def)
  show ?case
  proof (cases r)
    case (Inl e')
    with step Cons.prems(1) have "fst (score_chunks h (chunks (section_of h s)) q) = Inl e"
      by simp
    from score_chunks_error_kind [OF this here] show ?thesis .
  next
    case (Inr u)
    have "section_of h1 = section_of h"
      using section_of_score_chunks [of h "chunks (section_of h s)" q] step by simp
    moreover have "embedding (chunk_of h1 c) = embedding (chunk_of h c)" for c
      using embedding_score_chunks [of h "chunks (section_of h s)" q c] step by simp
    ultimately have "embeddings_present h1 ss"
      using rest by (simp add: embeddings_present_def)
    with Cons.IH [of h1] Cons.prems(1) step Inr show ?thesis
      by simp
  qed
qed

lemma rank_sections_globally_fails:
  assumes "fst (score_all_chunks h (get_all_sections docs) q) = Inl e"
  shows "rank_sections_globally self h docs q
           = (Inl e, snd (score_all_chunks h (get_all_sections docs) q))"
proof -
  obtain r h1 where s: "score_all_chunks h (get_all_sections docs) q = (r, h1)"
    by (cases "score_all_chunks h (get_all_sections docs) q")
  with assms show ?thesis
    by (simp add: rank_sections_globally_def)
qed

section \<open>Dimension mismatch\<close>

lemma np_dot_wrong_length:
  "chunk_has_dim h D c \<Longrightarrow> D \<noteq> length q \<Longrightarrow>
   np_dot (embedding (chunk_of h c)) q = Inl ValueError"
  by (auto simp: chunk_has_dim_def np_dot_def split: option.splits)

lemma score_chunks_wrong_length:
  assumes "list_all (chunk_has_dim h D) cs" and "D \<noteq> length q"
  shows "score_chunks h cs q = (if cs = [] then (Inr (), h) else (Inl ValueError, h))"
proof (cases cs)
  case Nil
  then show ?thesis by simp
next
  case (Cons c cs')
  with assms(1) have "chunk_has_dim h D c" by simp
  from np_dot_wrong_length [OF this assms(2)] Cons show ?thesis
    by simp
qed

lemma score_all_chunks_wrong_length:
  assumes "list_all (\<lambda>s. list_all (chunk_has_dim h D) (chunks (section_of h s))) ss"
    and "D \<noteq> length q"
  shows "score_all_chunks h ss q
           = (if list_ex (\<lambda>s. chunks (section_of h s) \<noteq> []) ss
              then (Inl ValueError, h) else (Inr (), h))"
  using assms(1)
proof (induction ss)
  case Nil
  then show ?case by simp
next
  case (Cons s ss)
  then have here: "list_all (chunk_has_dim h D) (chunks (section_of h s))"
    and rest: "list_all (\<lambda>s. list_all (chunk_has_dim h D) (chunks (section_of h s))) ss"
    by simp_all
  show ?case
    using Cons.IH [OF rest]
    by (simp add: score_chunks_wrong_length [OF here assms(2)])
qed

lemma uniform_dimension_mismatch:
  assumes "uniform_dimension h docs D" and "\<not> dims_match h docs q"
  shows "D \<noteq> length q"
    and "list_ex (\<lambda>s. chunks (section_of h s) \<noteq> []) (get_all_sections docs)"
proof -
  from assms(2) obtain s c where s: "s \<in> set (get_all_sections docs)"
    and c: "c \<in> set (chunks (section_of h s))" and bad: "\<not> chunk_dims_ok h q c"
    by (auto simp: dims_match_def sections_dims_ok_def list_all_iff)
  from assms(1) s c have "chunk_has_dim h D c"
    by (auto simp: uniform_dimension_def list_all_iff)
  with bad show "D \<noteq> length q"
    by (auto simp: chunk_has_dim_def chunk_dims_ok_def split: option.splits)
  from c have "chunks (section_of h s) \<noteq> []"
    by auto
  with s show "list_ex (\<lambda>s. chunks (section_of h s) \<noteq> []) (get_all_sections docs)"
    unfolding list_ex_iff by blast
qed

lemma mismatch_all_sections: "get_all_sections mismatch_docs = [10]"
  by (simp add: get_all_sections_def mismatch_docs_def)

lemma mismatch_uniform: "uniform_dimension mismatch_heap mismatch_docs 1"
  by (simp add: uniform_dimension_def chunk_has_dim_def mismatch_all_sections
        mismatch_heap_def example_section_def example_embedded_def)

lemma mismatch_not_dims_match: "\<not> dims_match mismatch_heap mismatch_docs example_query"
  by (simp add: dims_match_def sections_dims_ok_def mismatch_all_sections mismatch_heap_def
        example_section_def example_embedded_def example_query_def chunk_dims_ok_def)

text \<open>C4, as stated, fails: all chunks have dimensionality 1, the query has 2, and the
  error that reaches the caller is numpy's \<open>ValueError\<close> from \<open>np.dot\<close>, not a
  \<open>DimensionMismatch\<close> error.\<close>

theorem dimension_mismatch_error_counterexample:
  "uniform_dimension mismatch_heap mismatch_docs 1 \<and>
   \<not> dims_match mismatch_heap mismatch_docs example_query \<and>
   fst (rank_sections_globally example_engine mismatch_heap mismatch_docs example_query)
     = Inl ValueError \<and>
   fst (rank_sections_globally example_engine mismatch_heap mismatch_docs example_query)
     \<noteq> Inl DimensionMismatch"
proof -
  have "score_all_chunks mismatch_heap (get_all_sections mismatch_docs) example_query
        = (Inl ValueError, mismatch_heap)"
    by (simp add: mismatch_all_sections mismatch_heap_def example_section_def
          example_embedded_def example_query_def np_dot_def)
  then have "rank_sections_globally example_engine mismatch_heap mismatch_docs example_query
             = (Inl ValueError, mismatch_heap)"
    by (simp add: rank_sections_globally_def)
  with mismatch_uniform mismatch_not_dims_match show ?thesis
    by simp
qed

text \<open>C4, amended only in the error's name. When all chunks of the documents carry
  embeddings of one dimensionality and the query vector's length differs from the length
  of some chunk's embedding, the call fails with numpy's \<open>ValueError\<close> at the first chunk
  it visits; no ranking is returned and the heap is exactly as before: no chunk score,
  section score or rank is modified.\<close>

theorem dimension_mismatch_fails_fast:
  assumes "uniform_dimension h docs D" and "\<not> dims_match h docs q"
  shows "rank_sections_globally self h docs q = (Inl ValueError, h)"
proof -
  note facts = uniform_dimension_mismatch [OF assms]
  have "score_all_chunks h (get_all_sections docs) q = (Inl ValueError, h)"
    using score_all_chunks_wrong_length
            [OF assms(1) [unfolded uniform_dimension_def] facts(1)] facts(2)
    by simp
  then show ?thesis
    by (simp add: rank_sections_globally_def)
qed

theorem dimension_mismatch_fails_fast_witness:
  "uniform_dimension mismatch_heap mismatch_docs 1 \<and>
   \<not> dims_match mismatch_heap mismatch_docs example_query \<and>
   rank_sections_globally example_engine mismatch_heap mismatch_docs example_query
     = (Inl ValueError, mismatch_heap)"
  using dimension_mismatch_fails_fast
          [OF mismatch_uniform mismatch_not_dims_match, of example_engine]
        mismatch_uniform mismatch_not_dims_match
  by blast

section \<open>Snippet selection\<close>

lemma py_round_near: "\<bar>py_round x n - x\<bar> \<le> 1 / (2 * 10 ^ n)"
proof -
  define y where "y = x * 10 ^ n"
  define k where "k = (if y - of_int \<lfloor>y\<rfloor> < 1 / 2 then \<lfloor>y\<rfloor>
                       else if 1 / 2 < y - of_int \<lfloor>y\<rfloor> then \<lfloor>y\<rfloor> + 1
                       else if even \<lfloor>y\<rfloor> then \<lfloor>y\<rfloor> else \<lfloor>y\<rfloor> + 1)"
  have r: "py_round x n = of_int k / 10 ^ n"
    by (simp add: py_round_def Let_def y_def k_def)
  have "of_int \<lfloor>y\<rfloor> \<le> y" and "y < of_int \<lfloor>y\<rfloor> + 1"
    by linarith+
  then have "\<bar>of_int k - y\<bar> \<le> 1 / 2"
    by (auto simp: k_def)
  then have "\<bar>of_int k - y\<bar> / 10 ^ n \<le> (1 / 2) / 10 ^ n"
    by (rule divide_right_mono) simp
  moreover have "py_round x n - x = (of_int k - y) / 10 ^ n"
    by (simp add: r y_def diff_divide_distrib)
  ultimately show ?thesis
    by simp
qed

lemma py_round_grid: "\<exists>k::int. py_round x n = of_int k / 10 ^ n"
  by (auto simp: py_round_def Let_def)

lemma hd_sort_descending_first_max:
  assumes "xs \<noteq> []"
  shows "\<exists>i < length xs. hd (sort_descending f xs) = xs ! i \<and>
           (\<forall>j < length xs. f (xs ! j) \<le> f (xs ! i)) \<and> (\<forall>j < i. f (xs ! j) < f (xs ! i))"
proof -
  let ?s = "sort_descending f xs"
  from assms have "?s \<noteq> []"
    by (metis length_0_conv length_sort_descending)
  then obtain m rest where s: "?s = m # rest"
    by (cases ?s) auto
  have "sorted_wrt (\<lambda>a b. f b \<le> f a) (m # rest)"
    using sorted_wrt_sort_descending [of f xs] by (simp add: s)
  then have "\<forall>y \<in> set (m # rest). f y \<le> f m"
    by auto
  then have le: "\<forall>y \<in> set xs. f y \<le> f m"
    by (metis s set_sort_descending)
  have "filter (\<lambda>y. f y = f m) xs = filter (\<lambda>y. f y = f m) (m # rest)"
    using sort_descending_stable [of f "f m" xs] by (simp add: s)
  then have "filter (\<lambda>y. f y = f m) xs = m # filter (\<lambda>y. f y = f m) rest"
    by simp
  then obtain us vs where xs: "xs = us @ m # vs" and us: "\<forall>u \<in> set us. f u \<noteq> f m"
    by (auto simp: filter_eq_Cons_iff)
  have "length us < length xs" and at: "xs ! length us = m"
    by (simp_all add: xs)
  moreover have "\<forall>j < length xs. f (xs ! j) \<le> f m"
    using le by simp
  moreover have "\<forall>j < length us. f (xs ! j) < f m"
  proof (intro allI impI)
    fix j assume j: "j < length us"
    then have "xs ! j = us ! j" by (simp add: xs nth_append)
    with j us le xs have "f (xs ! j) \<noteq> f m" and "f (xs ! j) \<le> f m"
      by auto
    then show "f (xs ! j) < f m" by simp
  qed
  ultimately show ?thesis
    by (metis list.sel(1) s)
qed

lemma best_chunk_first_best:
  assumes "chunks (section_of h s) \<noteq> []"
    and "list_all (\<lambda>c. similarity_score (chunk_of h c) \<noteq> None) (chunks (section_of h s))"
  shows "\<exists>i. is_first_best h (chunks (section_of h s)) i \<and>
              best_chunk h s = chunks (section_of h s) ! i"
proof -
  let ?cs = "chunks (section_of h s)"
  let ?f = "key_val (\<lambda>c. similarity_score (chunk_of h c))"
  from hd_sort_descending_first_max [OF assms(1), of ?f]
  obtain i where i: "i < length ?cs" "best_chunk h s = ?cs ! i"
    and le: "\<forall>j < length ?cs. ?f (?cs ! j) \<le> ?f (?cs ! i)"
    and lt: "\<forall>j < i. ?f (?cs ! j) < ?f (?cs ! i)"
    by (auto simp: best_chunk_def)
  have some: "similarity_score (chunk_of h (?cs ! j)) = Some (?f (?cs ! j))"
    if "j < length ?cs" for j
    using assms(2) that by (auto simp: list_all_length key_val_def)
  have "is_first_best h ?cs i"
    unfolding is_first_best_def using i(1) le lt some by auto
  with i(2) show ?thesis by blast
qed

lemma record_of_matches:
  assumes "chunks (section_of h s) \<noteq> []"
    and "list_all (\<lambda>c. similarity_score (chunk_of h c) \<noteq> None) (chunks (section_of h s))"
  shows "record_matches h s (record_of h s)"
proof -
  let ?cs = "chunks (section_of h s)"
  from best_chunk_first_best [OF assms] obtain i
    where i: "is_first_best h ?cs i" "best_chunk h s = ?cs ! i"
    by blast
  then obtain v where v: "similarity_score (chunk_of h (?cs ! i)) = Some v"
    by (auto simp: is_first_best_def)
  then have kv: "key_val (\<lambda>c. similarity_score (chunk_of h c)) (best_chunk h s) = v"
    by (simp add: key_val_def i(2))
  have near: "\<bar>py_round v 4 - v\<bar> \<le> 1 / 20000"
    using py_round_near [of v 4] by simp
  from py_round_grid [of v 4] obtain k :: int where k: "py_round v 4 = of_int k / 10 ^ 4"
    by blast
  have f1: "refined_text_snippet (record_of h s) = chunk_text (chunk_of h (?cs ! i))"
    by (simp add: record_of_def i(2))
  have f2: "snippet_relevance_score (record_of h s) = py_round v 4"
    by (simp add: record_of_def kv)
  have f3: "importance_rank (record_of h s) = rank (section_of h s)"
    "source_document (record_of h s) = source_doc_name (section_of h s)"
    "section_title (record_of h s) = title (section_of h s)"
    by (simp_all add: record_of_def)
  show ?thesis
    unfolding record_matches_def f1 f2 f3
    using i(1) v near k by blast
qed

lemma getitem_zero: "xs \<noteq> [] \<Longrightarrow> getitem xs 0 = Inr (hd xs)"
  by (cases xs) (simp_all add: getitem_def)

lemma analysis_loop_ok:
  "all_scored h ss \<Longrightarrow>
   analysis_loop h ss
     = Inr (map (record_of h) (filter (\<lambda>s. chunks (section_of h s) \<noteq> []) ss))"
proof (induction ss)
  case Nil
  then show ?case by simp
next
  case (Cons s ss)
  from Cons.prems have here: "list_all (\<lambda>c. similarity_score (chunk_of h c) \<noteq> None)
                                (chunks (section_of h s))"
    and rest: "all_scored h ss"
    by (simp_all add: all_scored_def)
  note IH = Cons.IH [OF rest]
  show ?case
  proof (cases "chunks (section_of h s) = []")
    case True
    with IH show ?thesis by simp
  next
    case False
    let ?key = "\<lambda>c. similarity_score (chunk_of h c)"
    let ?sorted = "sort_descending (key_val ?key) (chunks (section_of h s))"
    have none: "\<not> list_ex (\<lambda>c. ?key c = None) (chunks (section_of h s))"
      using here by (auto simp: list_ex_iff list_all_iff)
    have sorted: "sorted_reverse ?key (chunks (section_of h s)) = Inr ?sorted"
      by (rule sorted_reverse_ok [OF none])
    have "?sorted \<noteq> []"
      using False by (metis length_0_conv length_sort_descending)
    then have top: "getitem ?sorted 0 = Inr (best_chunk h s)"
      by (simp add: getitem_zero best_chunk_def)
    have "best_chunk h s \<in> set (chunks (section_of h s))"
      using \<open>?sorted \<noteq> []\<close> hd_in_set [of ?sorted] by (simp add: best_chunk_def)
    with here obtain v where v: "similarity_score (chunk_of h (best_chunk h s)) = Some v"
      by (auto simp: list_all_iff)
    then have "key_val ?key (best_chunk h s) = v"
      by (simp add: key_val_def)
    with False IH sorted top v show ?thesis
      by (simp add: record_of_def)
  qed
qed

lemma all_scored_subset:
  "all_scored h ss \<Longrightarrow> set ts \<subseteq> set ss \<Longrightarrow> all_scored h ts"
  by (auto simp: all_scored_def list_all_iff)

lemma all_scored_ranked_heap:
  "all_scored (ranked_heap self h docs q) (get_all_sections docs)"
  using all_scored_scored_heap [of h docs q]
  by (simp add: all_scored_def chunk_of_ranked_heap scored_heap_def)

lemma ranks_increase_along_ranked:
  assumes "distinct (get_all_sections docs)"
  shows "sorted_wrt (\<lambda>s t. \<exists>x y. rank (section_of (ranked_heap self h docs q) s) = Some x \<and>
                             rank (section_of (ranked_heap self h docs q) t) = Some y \<and> x < y)
           (ranked self h docs q)"
  unfolding sorted_wrt_iff_nth_less
  using rank_ranked_heap [OF assms, of _ self h q] by simp

section \<open>Sub-section analysis\<close>

lemma slice_to_nonneg: "0 \<le> n \<Longrightarrow> slice_to xs n = take (nat n) xs"
  by (simp add: slice_to_def)

text \<open>C5. After a successful ranking of distinct sections and with a non-negative
  \<open>top_n_sections_for_analysis\<close>, the analysis returns one record for each of the first
  \<open>top_n\<close> ranked sections that has chunks, in that order and none for the others; the
  record carries the text of the section's highest-scoring chunk (the earliest among equal
  scores) and that score rounded to four decimals; the ranks of the records increase.\<close>

theorem analysis_picks_best_chunk_of_top_sections:
  assumes "dims_match h docs q"
    and "distinct (get_all_sections docs)"
    and "0 \<le> top_n_sections_for_analysis self"
  shows "\<exists>rs h' recs.
           rank_sections_globally self h docs q = (Inr rs, h') \<and>
           perform_sub_section_analysis self h' rs = (Inr recs, h') \<and>
           list_all2 (\<lambda>a s. record_matches h' s a) recs
             (filter (\<lambda>s. chunks (section_of h' s) \<noteq> [])
                (take (nat (top_n_sections_for_analysis self)) rs)) \<and>
           sorted_wrt (\<lambda>a b. \<exists>x y. importance_rank a = Some x \<and>
                                   importance_rank b = Some y \<and> x < y) recs"
proof -
  let ?rs = "ranked self h docs q"
  let ?h' = "ranked_heap self h docs q"
  let ?top = "take (nat (top_n_sections_for_analysis self)) ?rs"
  let ?kept = "filter (\<lambda>s. chunks (section_of ?h' s) \<noteq> []) ?top"
  let ?recs = "map (record_of ?h') ?kept"
  have "set ?top \<subseteq> set (get_all_sections docs)"
    using set_take_subset [of "nat (top_n_sections_for_analysis self)" ?rs] by simp
  with all_scored_ranked_heap have scored: "all_scored ?h' ?top"
    by (rule all_scored_subset)
  have run: "perform_sub_section_analysis self ?h' ?rs = (Inr ?recs, ?h')"
    by (simp add: perform_sub_section_analysis_def slice_to_nonneg [OF assms(3)]
          analysis_loop_ok [OF scored])
  have "record_matches ?h' s (record_of ?h' s)" if "s \<in> set ?kept" for s
  proof (rule record_of_matches)
    from that show "chunks (section_of ?h' s) \<noteq> []" by simp
    from that scored
    show "list_all (\<lambda>c. similarity_score (chunk_of ?h' c) \<noteq> None) (chunks (section_of ?h' s))"
      by (auto simp: all_scored_def list_all_iff)
  qed
  then have matches: "list_all2 (\<lambda>a s. record_matches ?h' s a) ?recs ?kept"
    by (auto simp: list_all2_map1 list_all2_same)
  have "sorted_wrt (\<lambda>s t. \<exists>x y. rank (section_of ?h' s) = Some x \<and>
                             rank (section_of ?h' t) = Some y \<and> x < y) ?kept"
    by (intro sorted_wrt_filter sorted_wrt_take ranks_increase_along_ranked [OF assms(2)])
  then have order: "sorted_wrt (\<lambda>a b. \<exists>x y. importance_rank a = Some x \<and>
                                  importance_rank b = Some y \<and> x < y) ?recs"
    by (simp add: sorted_wrt_map record_of_def)
  show ?thesis
    unfolding rank_sections_globally_ok [OF assms(1)]
    using run matches order by blast
qed

lemma example_top_n: "0 \<le> top_n_sections_for_analysis example_engine"
  by (simp add: example_engine_def)

theorem analysis_picks_best_chunk_of_top_sections_witness:
  "dims_match example_heap example_docs example_query \<and>
   distinct (get_all_sections example_docs) \<and>
   0 \<le> top_n_sections_for_analysis example_engine \<and>
   (\<exists>rs h' recs.
      rank_sections_globally example_engine example_heap example_docs example_query
        = (Inr rs, h') \<and>
      perform_sub_section_analysis example_engine h' rs = (Inr recs, h') \<and>
      list_all2 (\<lambda>a s. record_matches h' s a) recs
        (filter (\<lambda>s. chunks (section_of h' s) \<noteq> [])
           (take (nat (top_n_sections_for_analysis example_engine)) rs)) \<and>
      sorted_wrt (\<lambda>a b. \<exists>x y. importance_rank a = Some x \<and>
                              importance_rank b = Some y \<and> x < y) recs)"
  using analysis_picks_best_chunk_of_top_sections
          [OF example_dims_match example_distinct example_top_n]
        example_dims_match example_distinct example_top_n
  by blast

section \<open>Repeated invocation\<close>

lemma section_value_cong:
  assumes "chunks (section_of h1 s) = chunks (section_of h2 s)"
    and "\<forall>c \<in> set (chunks (section_of h1 s)).
           similarity_score (chunk_of h1 c) = similarity_score (chunk_of h2 c)"
  shows "section_value self h1 s = section_value self h2 s"
proof -
  have "chunk_scores h1 s = chunk_scores h2 s"
    using assms by (simp add: chunk_scores_def)
  with assms(1) show ?thesis
    by (simp add: section_value_def)
qed

lemma final_rank_idem: "final_rank xs s (final_rank xs s r) = final_rank xs s r"
proof (cases "s \<in> snd ` set xs")
  case True
  then show ?thesis by (rule final_rank_indep)
next
  case False
  then show ?thesis by (simp add: final_rank_notin)
qed

lemma embedding_ranked_heap [simp]:
  "embedding (chunk_of (ranked_heap self h docs q) c) = embedding (chunk_of h c)"
  by (simp add: chunk_of_ranked_heap scored_heap_def)

lemma chunk_dims_ok_ranked_heap [simp]:
  "chunk_dims_ok (ranked_heap self h docs q) q' = chunk_dims_ok h q'"
  by (simp add: chunk_dims_ok_def fun_eq_iff)

lemma dims_match_ranked_heap [simp]:
  "dims_match (ranked_heap self h docs q) docs q = dims_match h docs q"
  by (simp add: dims_match_def sections_dims_ok_def)

lemma chunks_of_sections_ranked_heap [simp]:
  "chunks_of_sections (ranked_heap self h docs q) ss = chunks_of_sections h ss"
  by (simp add: chunks_of_sections_def)

lemma scored_heap_ranked_heap:
  "scored_heap (ranked_heap self h docs q) docs q = ranked_heap self h docs q"
proof (rule heap.equality)
  show "chunk_of (scored_heap (ranked_heap self h docs q) docs q)
        = chunk_of (ranked_heap self h docs q)"
    by (auto simp: scored_heap_def scored_def chunk_of_ranked_heap fun_eq_iff)
  show "section_of (scored_heap (ranked_heap self h docs q) docs q)
        = section_of (ranked_heap self h docs q)"
    by (simp add: scored_heap_def)
qed simp

lemma section_value_ranked_heap:
  "section_value self (ranked_heap self h docs q) s
     = section_value self (scored_heap h docs q) s"
  by (rule section_value_cong) (simp_all add: chunk_of_ranked_heap scored_heap_def)

lemma ranked_ranked_heap:
  "ranked self (ranked_heap self h docs q) docs q = ranked self h docs q"
  by (simp add: ranked_def scored_heap_ranked_heap section_value_ranked_heap [abs_def])

lemma aggregated_heap_ranked_heap:
  "aggregated_heap self (ranked_heap self h docs q) docs q = ranked_heap self h docs q"
proof (rule heap.equality)
  let ?h' = "ranked_heap self h docs q"
  show "chunk_of (aggregated_heap self ?h' docs q) = chunk_of ?h'"
    by (simp add: aggregated_heap_def scored_heap_ranked_heap)
  show "section_of (aggregated_heap self ?h' docs q) = section_of ?h'"
  proof
    fix s
    show "section_of (aggregated_heap self ?h' docs q) s = section_of ?h' s"
    proof (cases "s \<in> set (get_all_sections docs)")
      case True
      have "(section_of ?h' s)\<lparr>aggregated_score := aggregated_score (section_of ?h' s)\<rparr>
            = section_of ?h' s"
        by simp
      then show ?thesis
        using True
        by (simp add: aggregated_heap_def scored_heap_ranked_heap aggregated_def
              section_value_ranked_heap aggregated_score_ranked_heap)
    next
      case False
      then show ?thesis
        by (simp add: aggregated_heap_def scored_heap_ranked_heap aggregated_def)
    qed
  qed
qed simp

lemma ranked_heap_ranked_heap:
  "ranked_heap self (ranked_heap self h docs q) docs q = ranked_heap self h docs q"
proof (rule heap.equality)
  let ?h' = "ranked_heap self h docs q"
  let ?xs = "enumerate 0 (ranked self h docs q)"
  have unfold: "ranked_heap self ?h' docs q = assign_ranks ?h' ?xs"
    by (simp add: ranked_heap_def [of self ?h'] aggregated_heap_ranked_heap ranked_ranked_heap)
  show "chunk_of (ranked_heap self ?h' docs q) = chunk_of ?h'"
    by (simp add: unfold)
  show "section_of (ranked_heap self ?h' docs q) = section_of ?h'"
  proof
    fix s
    have "rank (section_of ?h' s) = final_rank ?xs s (rank (section_of h s))"
      by (simp add: section_of_ranked_heap)
    then have "final_rank ?xs s (rank (section_of ?h' s)) = rank (section_of ?h' s)"
      by (simp add: final_rank_idem)
    then show "section_of (ranked_heap self ?h' docs q) s = section_of ?h' s"
      by (simp add: unfold section_of_assign_ranks)
  qed
qed simp

text \<open>C8. A second invocation on the objects as the first one left them returns the same
  list and writes the values that are already there: the heap is unchanged by it.\<close>

theorem ranking_is_idempotent:
  assumes "dims_match h docs q"
  shows "\<exists>rs h'. rank_sections_globally self h docs q = (Inr rs, h') \<and>
           rank_sections_globally self h' docs q = (Inr rs, h')"
proof -
  have "dims_match (ranked_heap self h docs q) docs q"
    using assms by simp
  from rank_sections_globally_ok [OF this, of self]
  have "rank_sections_globally self (ranked_heap self h docs q) docs q
        = (Inr (ranked self h docs q), ranked_heap self h docs q)"
    by (simp add: ranked_ranked_heap ranked_heap_ranked_heap)
  with rank_sections_globally_ok [OF assms, of self] show ?thesis
    by blast
qed

theorem ranking_is_idempotent_witness:
  "dims_match example_heap example_docs example_query \<and>
   (\<exists>rs h'. rank_sections_globally example_engine example_heap example_docs example_query
              = (Inr rs, h') \<and>
      rank_sections_globally example_engine h' example_docs example_query = (Inr rs, h'))"
  using ranking_is_idempotent [OF example_dims_match, of example_engine] example_dims_match
  by blast

section \<open>Independence from earlier runs\<close>

lemma same_chunk_inputD:
  assumes "same_chunk_input h1 h2 c"
  shows "embedding (chunk_of h1 c) = embedding (chunk_of h2 c)"
    and "(chunk_of h1 c)\<lparr>similarity_score := v\<rparr> = (chunk_of h2 c)\<lparr>similarity_score := v\<rparr>"
proof -
  let ?a = "chunk_of h1 c" and ?b = "chunk_of h2 c"
  from assms have eq: "?a\<lparr>similarity_score := None\<rparr> = ?b\<lparr>similarity_score := None\<rparr>"
    by (simp add: same_chunk_input_def)
  then have "embedding (?a\<lparr>similarity_score := None\<rparr>)
             = embedding (?b\<lparr>similarity_score := None\<rparr>)"
    by (rule arg_cong)
  then show "embedding ?a = embedding ?b" by simp
  from eq have "?a\<lparr>similarity_score := None\<rparr>\<lparr>similarity_score := v\<rparr>
                = ?b\<lparr>similarity_score := None\<rparr>\<lparr>similarity_score := v\<rparr>"
    by (rule arg_cong)
  then show "?a\<lparr>similarity_score := v\<rparr> = ?b\<lparr>similarity_score := v\<rparr>" by simp
qed

lemma same_section_inputD:
  assumes "same_section_input h1 h2 s"
  shows "chunks (section_of h1 s) = chunks (section_of h2 s)"
    and "(section_of h1 s)\<lparr>aggregated_score := a, rank := r\<rparr>
           = (section_of h2 s)\<lparr>aggregated_score := a, rank := r\<rparr>"
    and "\<forall>c \<in> set (chunks (section_of h1 s)). same_chunk_input h1 h2 c"
proof -
  let ?a = "section_of h1 s" and ?b = "section_of h2 s"
  from assms have eq: "?a\<lparr>aggregated_score := None, rank := None\<rparr>
                       = ?b\<lparr>aggregated_score := None, rank := None\<rparr>"
    by (simp add: same_section_input_def)
  then have "chunks (?a\<lparr>aggregated_score := None, rank := None\<rparr>)
             = chunks (?b\<lparr>aggregated_score := None, rank := None\<rparr>)"
    by (rule arg_cong)
  then show "chunks ?a = chunks ?b" by simp
  from eq have "?a\<lparr>aggregated_score := None, rank := None\<rparr>\<lparr>aggregated_score := a, rank := r\<rparr>
                = ?b\<lparr>aggregated_score := None, rank := None\<rparr>\<lparr>aggregated_score := a, rank := r\<rparr>"
    by (rule arg_cong)
  then show "?a\<lparr>aggregated_score := a, rank := r\<rparr> = ?b\<lparr>aggregated_score := a, rank := r\<rparr>"
    by simp
  from assms show "\<forall>c \<in> set (chunks ?a). same_chunk_input h1 h2 c"
    by (simp add: same_section_input_def list_all_iff)
qed

lemma same_inputsD:
  "same_inputs h1 h2 docs \<Longrightarrow> s \<in> set (get_all_sections docs) \<Longrightarrow> same_section_input h1 h2 s"
  by (simp add: same_inputs_def list_all_iff)

lemma same_inputs_dims_match:
  assumes "same_inputs h1 h2 docs" and "dims_match h1 docs q"
  shows "dims_match h2 docs q"
  unfolding dims_match_def sections_dims_ok_def list_all_iff
proof (intro ballI)
  fix s c
  assume s: "s \<in> set (get_all_sections docs)" and c: "c \<in> set (chunks (section_of h2 s))"
  note sec = same_section_inputD [OF same_inputsD [OF assms(1) s]]
  from c sec(1) have c1: "c \<in> set (chunks (section_of h1 s))" by simp
  with sec(3) have "embedding (chunk_of h1 c) = embedding (chunk_of h2 c)"
    by (auto dest: same_chunk_inputD(1))
  moreover from assms(2) s c1 have "chunk_dims_ok h1 q c"
    by (auto simp: dims_match_def sections_dims_ok_def list_all_iff)
  ultimately show "chunk_dims_ok h2 q c"
    by (simp add: chunk_dims_ok_def)
qed

lemma same_inputs_scored_chunk:
  assumes "same_inputs h1 h2 docs"
    and "s \<in> set (get_all_sections docs)" and "c \<in> set (chunks (section_of h1 s))"
  shows "chunk_of (scored_heap h1 docs q) c = chunk_of (scored_heap h2 docs q) c"
proof -
  note sec = same_section_inputD [OF same_inputsD [OF assms(1,2)]]
  from assms(3) sec(3) have ch: "same_chunk_input h1 h2 c" by blast
  have in1: "c \<in> chunks_of_sections h1 (get_all_sections docs)"
    using assms(2,3) by (auto simp: chunks_of_sections_def)
  have in2: "c \<in> chunks_of_sections h2 (get_all_sections docs)"
    using assms(2,3) sec(1) by (auto simp: chunks_of_sections_def)
  show ?thesis
    using in1 in2 same_chunk_inputD [OF ch]
    by (simp add: scored_heap_def scored_def)
qed

lemma same_inputs_section_value:
  assumes "same_inputs h1 h2 docs" and "s \<in> set (get_all_sections docs)"
  shows "section_value self (scored_heap h1 docs q) s
         = section_value self (scored_heap h2 docs q) s"
proof (rule section_value_cong)
  note sec = same_section_inputD [OF same_inputsD [OF assms]]
  show "chunks (section_of (scored_heap h1 docs q) s)
        = chunks (section_of (scored_heap h2 docs q) s)"
    using sec(1) by (simp add: scored_heap_def)
  show "\<forall>c \<in> set (chunks (section_of (scored_heap h1 docs q) s)).
          similarity_score (chunk_of (scored_heap h1 docs q) c)
          = similarity_score (chunk_of (scored_heap h2 docs q) c)"
    using same_inputs_scored_chunk [OF assms] by (simp add: scored_heap_def)
qed

lemma same_inputs_ranked:
  assumes "same_inputs h1 h2 docs"
  shows "ranked self h1 docs q = ranked self h2 docs q"
  unfolding ranked_def
  by (rule sort_descending_cong) (simp add: same_inputs_section_value [OF assms])

lemma same_inputs_ranked_section:
  assumes "same_inputs h1 h2 docs" and "s \<in> set (get_all_sections docs)"
  shows "section_of (ranked_heap self h1 docs q) s = section_of (ranked_heap self h2 docs q) s"
proof -
  note sec = same_section_inputD [OF same_inputsD [OF assms]]
  let ?xs = "enumerate 0 (ranked self h1 docs q)"
  let ?v = "section_value self (scored_heap h1 docs q) s"
  have "s \<in> snd ` set ?xs"
    using assms(2) by simp
  then have fr: "final_rank ?xs s (rank (section_of h2 s))
                 = final_rank ?xs s (rank (section_of h1 s))"
    by (rule final_rank_indep)
  have form: "section_of (ranked_heap self h docs q) s
              = (section_of h s)\<lparr>aggregated_score :=
                    Some (section_value self (scored_heap h docs q) s),
                  rank := final_rank (enumerate 0 (ranked self h docs q)) s
                            (rank (section_of h s))\<rparr>" for h
    using assms(2)
    by (simp add: section_of_ranked_heap aggregated_heap_def aggregated_def scored_heap_def)
  show ?thesis
    unfolding form [of h1] form [of h2]
      same_inputs_ranked [OF assms(1), symmetric]
      same_inputs_section_value [OF assms, symmetric] fr
    by (rule sec(2))
qed

lemma same_inputs_ranked_chunk:
  assumes "same_inputs h1 h2 docs"
    and "s \<in> set (get_all_sections docs)" and "c \<in> set (chunks (section_of h1 s))"
  shows "chunk_of (ranked_heap self h1 docs q) c = chunk_of (ranked_heap self h2 docs q) c"
  using same_inputs_scored_chunk [OF assms] by (simp add: chunk_of_ranked_heap)

lemma record_of_cong:
  assumes "section_of h1 s = section_of h2 s"
    and "\<forall>c \<in> set (chunks (section_of h1 s)). chunk_of h1 c = chunk_of h2 c"
    and "chunks (section_of h1 s) \<noteq> []"
  shows "record_of h1 s = record_of h2 s"
proof -
  let ?cs = "chunks (section_of h1 s)"
  have "sort_descending (key_val (\<lambda>c. similarity_score (chunk_of h1 c))) ?cs
        = sort_descending (key_val (\<lambda>c. similarity_score (chunk_of h2 c))) ?cs"
    by (rule sort_descending_cong) (simp add: key_val_def assms(2))
  then have best: "best_chunk h1 s = best_chunk h2 s"
    by (simp add: best_chunk_def assms(1))
  have "sort_descending (key_val (\<lambda>c. similarity_score (chunk_of h1 c))) ?cs \<noteq> []"
    using assms(3) by (metis length_0_conv length_sort_descending)
  then have "best_chunk h1 s \<in> set ?cs"
    using hd_in_set [of "sort_descending (key_val (\<lambda>c. similarity_score (chunk_of h1 c))) ?cs"]
    by (simp add: best_chunk_def)
  with assms(2) have "chunk_of h1 (best_chunk h1 s) = chunk_of h2 (best_chunk h1 s)"
    by blast
  then show ?thesis
    by (simp add: record_of_def key_val_def best [symmetric] assms(1))
qed

section \<open>Determinism\<close>

lemma analysis_loop_cong:
  assumes "all_scored h1 ss"
    and "\<forall>s \<in> set ss. section_of h1 s = section_of h2 s \<and>
           (\<forall>c \<in> set (chunks (section_of h1 s)). chunk_of h1 c = chunk_of h2 c)"
  shows "analysis_loop h2 ss = analysis_loop h1 ss"
proof -
  have "all_scored h2 ss"
    using assms by (auto simp: all_scored_def list_all_iff)
  moreover have "filter (\<lambda>s. chunks (section_of h2 s) \<noteq> []) ss
                 = filter (\<lambda>s. chunks (section_of h1 s) \<noteq> []) ss"
    by (rule filter_cong) (simp_all add: assms(2))
  moreover have "map (record_of h2) (filter (\<lambda>s. chunks (section_of h1 s) \<noteq> []) ss)
                 = map (record_of h1) (filter (\<lambda>s. chunks (section_of h1 s) \<noteq> []) ss)"
    by (rule map_cong) (auto intro!: record_of_cong [symmetric] simp: assms(2))
  ultimately show ?thesis
    by (simp add: analysis_loop_ok assms(1))
qed

text \<open>C7. Two runs on the same input (same documents, texts and embeddings, same query
  and configuration), started from heaps that may differ in stale scores and ranks and in
  unrelated objects, return the same ranked list, leave every section and chunk of the
  documents in the same state, and produce the same analysis records. (Two runs from
  the very same heap are equal because the model is a function.)\<close>

theorem runs_on_same_input_agree:
  assumes "dims_match h1 docs q" and "same_inputs h1 h2 docs"
  shows "\<exists>rs h1' h2' recs.
           rank_sections_globally self h1 docs q = (Inr rs, h1') \<and>
           rank_sections_globally self h2 docs q = (Inr rs, h2') \<and>
           (\<forall>s \<in> set (get_all_sections docs).
              section_of h1' s = section_of h2' s \<and>
              (\<forall>c \<in> set (chunks (section_of h1' s)). chunk_of h1' c = chunk_of h2' c)) \<and>
           fst (perform_sub_section_analysis self h1' rs) = Inr recs \<and>
           fst (perform_sub_section_analysis self h2' rs) = Inr recs"
proof -
  let ?rs = "ranked self h1 docs q"
  let ?h1' = "ranked_heap self h1 docs q" and ?h2' = "ranked_heap self h2 docs q"
  let ?top = "slice_to ?rs (top_n_sections_for_analysis self)"
  have run1: "rank_sections_globally self h1 docs q = (Inr ?rs, ?h1')"
    by (rule rank_sections_globally_ok [OF assms(1)])
  have run2: "rank_sections_globally self h2 docs q = (Inr ?rs, ?h2')"
    using rank_sections_globally_ok [OF same_inputs_dims_match [OF assms(2,1)], of self]
    by (simp add: same_inputs_ranked [OF assms(2)])
  have agree: "section_of ?h1' s = section_of ?h2' s \<and>
               (\<forall>c \<in> set (chunks (section_of ?h1' s)). chunk_of ?h1' c = chunk_of ?h2' c)"
    if "s \<in> set (get_all_sections docs)" for s
    using same_inputs_ranked_section [OF assms(2) that, of self q]
      same_inputs_ranked_chunk [OF assms(2) that, of _ self q]
      same_section_inputD(1) [OF same_inputsD [OF assms(2) that]]
    by simp
  have sub: "set ?top \<subseteq> set (get_all_sections docs)"
    using set_slice_to [of ?rs "top_n_sections_for_analysis self"] by simp
  with all_scored_ranked_heap have scored: "all_scored ?h1' ?top"
    by (rule all_scored_subset)
  have "analysis_loop ?h2' ?top = analysis_loop ?h1' ?top"
    by (rule analysis_loop_cong [OF scored]) (use sub agree in blast)
  moreover obtain recs where "analysis_loop ?h1' ?top = Inr recs"
    using analysis_loop_ok [OF scored] by blast
  ultimately have "fst (perform_sub_section_analysis self ?h1' ?rs) = Inr recs"
    and "fst (perform_sub_section_analysis self ?h2' ?rs) = Inr recs"
    by (simp_all add: perform_sub_section_analysis_def)
  with run1 run2 agree show ?thesis
    by blast
qed

lemma example_same_inputs: "same_inputs example_heap example_heap_stale example_docs"
  by (simp add: same_inputs_def same_section_input_def same_chunk_input_def
        example_all_sections example_heap_def example_heap_stale_def example_section_def
        example_embedded_def)

theorem runs_on_same_input_agree_witness:
  "dims_match example_heap example_docs example_query \<and>
   same_inputs example_heap example_heap_stale example_docs \<and>
   (\<exists>rs h1' h2' recs.
      rank_sections_globally example_engine example_heap example_docs example_query
        = (Inr rs, h1') \<and>
      rank_sections_globally example_engine example_heap_stale example_docs example_query
        = (Inr rs, h2') \<and>
      (\<forall>s \<in> set (get_all_sections example_docs).
         section_of h1' s = section_of h2' s \<and>
         (\<forall>c \<in> set (chunks (section_of h1' s)). chunk_of h1' c = chunk_of h2' c)) \<and>
      fst (perform_sub_section_analysis example_engine h1' rs) = Inr recs \<and>
      fst (perform_sub_section_analysis example_engine h2' rs) = Inr recs)"
  using runs_on_same_input_agree [OF example_dims_match example_same_inputs, of example_engine]
        example_dims_match example_same_inputs
  by blast

end
